theory Spec2Isabelle
  imports Complex_Main "HOL-Library.Product_Lexorder" "HOL-Library.Multiset"
begin

section \<open>Numeric cells\<close>

text \<open>
  A cell of the numeric matrix is a Python/NumPy float, an IEEE 754 binary64 number: a
  finite number, one of the two infinities, or NaN (the MISSING sentinel of
  \<^verbatim>\<open>load_data\<close>).  The special values follow IEEE 754: NaN is absorbing and compares false
  with everything, \<open>inf - inf\<close>, \<open>0 * inf\<close>, \<open>0 / 0\<close> and \<open>inf / inf\<close> are NaN, and a nonzero
  finite number divided by zero is an infinity (NumPy warns, it does not raise).  The
  result of an operation on finite numbers is the exact result rounded to the nearest
  binary64 number, ties to the even significand, and an infinity when that is out of
  range.  Zero has one sign here.
\<close>

datatype fval = NaN | NInf | Fin real | PInf

text \<open>The infinity with the sign of a nonzero real.\<close>

definition inf_of_sign :: "real \<Rightarrow> fval" where
  "inf_of_sign a = (if 0 < a then PInf else NInf)"

text \<open>The integer nearest to \<open>q\<close>; of two nearest integers the even one.\<close>

definition rne :: "real \<Rightarrow> int" where
  "rne q = (let f = \<lfloor>q\<rfloor>; d = q - of_int f
            in if d < 1 / 2 then f else if 1 / 2 < d then f + 1
               else if even f then f else f + 1)"

text \<open>
  The binary exponent of \<open>x\<close>, not below that of the subnormal numbers, and the distance
  \<open>ulp x\<close> between neighbouring binary64 numbers at \<open>x\<close>: a significand has 53 bits.
\<close>

definition expo :: "real \<Rightarrow> int" where
  "expo x = (if x = 0 then - 1022 else max \<lfloor>log 2 \<bar>x\<bar>\<rfloor> (- 1022))"

definition ulp :: "real \<Rightarrow> real" where
  "ulp x = 2 powi (expo x - 52)"

text \<open>Rounding to the nearest multiple of \<open>ulp x\<close>, and the binary64 number it gives.\<close>

definition rnd :: "real \<Rightarrow> real" where
  "rnd x = of_int (rne (x / ulp x)) * ulp x"

definition round64 :: "real \<Rightarrow> fval" where
  "round64 x = (if 2 ^ 1024 \<le> \<bar>rnd x\<bar> then inf_of_sign x else Fin (rnd x))"

fun isnan :: "fval \<Rightarrow> bool" where
  "isnan NaN = True"
| "isnan _ = False"

fun fneg :: "fval \<Rightarrow> fval" where
  "fneg NaN = NaN"
| "fneg NInf = PInf"
| "fneg (Fin a) = Fin (- a)"
| "fneg PInf = NInf"

fun fadd :: "fval \<Rightarrow> fval \<Rightarrow> fval" where
  "fadd NaN _ = NaN"
| "fadd _ NaN = NaN"
| "fadd PInf NInf = NaN"
| "fadd NInf PInf = NaN"
| "fadd PInf _ = PInf"
| "fadd _ PInf = PInf"
| "fadd NInf _ = NInf"
| "fadd _ NInf = NInf"
| "fadd (Fin a) (Fin b) = round64 (a + b)"

definition fsub :: "fval \<Rightarrow> fval \<Rightarrow> fval" where
  "fsub a b = fadd a (fneg b)"

fun fmul :: "fval \<Rightarrow> fval \<Rightarrow> fval" where
  "fmul NaN _ = NaN"
| "fmul _ NaN = NaN"
| "fmul (Fin a) (Fin b) = round64 (a * b)"
| "fmul (Fin a) PInf = (if a = 0 then NaN else inf_of_sign a)"
| "fmul (Fin a) NInf = (if a = 0 then NaN else inf_of_sign (- a))"
| "fmul PInf (Fin b) = (if b = 0 then NaN else inf_of_sign b)"
| "fmul NInf (Fin b) = (if b = 0 then NaN else inf_of_sign (- b))"
| "fmul PInf PInf = PInf"
| "fmul NInf NInf = PInf"
| "fmul PInf NInf = NInf"
| "fmul NInf PInf = NInf"

text \<open>
  Division.  Every divisor this program uses is a count, a standard deviation or a
  covariance it has just computed, so a zero divisor is \<open>+0.0\<close>.
\<close>

fun fdiv :: "fval \<Rightarrow> fval \<Rightarrow> fval" where
  "fdiv NaN _ = NaN"
| "fdiv _ NaN = NaN"
| "fdiv (Fin a) (Fin b) =
     (if b = 0 then (if a = 0 then NaN else inf_of_sign a) else round64 (a / b))"
| "fdiv (Fin a) PInf = Fin 0"
| "fdiv (Fin a) NInf = Fin 0"
| "fdiv PInf (Fin b) = (if 0 \<le> b then PInf else NInf)"
| "fdiv NInf (Fin b) = (if 0 \<le> b then NInf else PInf)"
| "fdiv PInf PInf = NaN"
| "fdiv PInf NInf = NaN"
| "fdiv NInf PInf = NaN"
| "fdiv NInf NInf = NaN"

fun fsqrt :: "fval \<Rightarrow> fval" where
  "fsqrt NaN = NaN"
| "fsqrt NInf = NaN"
| "fsqrt (Fin a) = (if a < 0 then NaN else round64 (sqrt a))"
| "fsqrt PInf = PInf"

fun fabs :: "fval \<Rightarrow> fval" where
  "fabs NaN = NaN"
| "fabs NInf = PInf"
| "fabs (Fin a) = Fin \<bar>a\<bar>"
| "fabs PInf = PInf"

text \<open>
  The order of the non-NaN values as a key: \<open>-inf\<close> below every finite number below
  \<open>inf\<close>.  NaN gets the largest key (NumPy sorts it last); the comparisons below never
  consult the key of a NaN.
\<close>

fun fkey :: "fval \<Rightarrow> int \<times> real" where
  "fkey NInf = (- 1, 0)"
| "fkey (Fin a) = (0, a)"
| "fkey PInf = (1, 0)"
| "fkey NaN = (2, 0)"

definition fless :: "fval \<Rightarrow> fval \<Rightarrow> bool" where
  "fless a b \<longleftrightarrow> \<not> isnan a \<and> \<not> isnan b \<and> fkey a < fkey b"

definition fle :: "fval \<Rightarrow> fval \<Rightarrow> bool" where
  "fle a b \<longleftrightarrow> \<not> isnan a \<and> \<not> isnan b \<and> fkey a \<le> fkey b"

section \<open>Exceptions\<close>

datatype error = KeyError | ValueError | IndexError | StopIteration

definition ebind :: "error + 'a \<Rightarrow> ('a \<Rightarrow> error + 'b) \<Rightarrow> error + 'b" where
  "ebind m f = (case m of Inl e \<Rightarrow> Inl e | Inr x \<Rightarrow> f x)"

fun emap :: "('a \<Rightarrow> error + 'b) \<Rightarrow> 'a list \<Rightarrow> error + 'b list" where
  "emap f [] = Inr []"
| "emap f (x # xs) = ebind (f x) (\<lambda>y. ebind (emap f xs) (\<lambda>ys. Inr (y # ys)))"

section \<open>NumPy and Python primitives\<close>

type_synonym matrix = "fval list list"

text \<open>
  \<^verbatim>\<open>np.array(rows)\<close> on a list of lists of floats: rows of different lengths have no
  rectangular shape and are refused with ValueError.
\<close>

definition np_array :: "fval list list \<Rightarrow> error + matrix" where
  "np_array rows =
     (if list_all (\<lambda>r. length r = length (hd rows)) rows then Inr rows else Inl ValueError)"

definition nrows :: "matrix \<Rightarrow> nat" where
  "nrows d = length d"

definition ncols :: "matrix \<Rightarrow> nat" where
  "ncols d = (case d of [] \<Rightarrow> 0 | r # _ \<Rightarrow> length r)"

text \<open>
  \<^verbatim>\<open>data.shape[1]\<close>: the array built from no rows at all is one-dimensional, of shape
  \<open>(0,)\<close>, and has no second axis.
\<close>

definition shape1 :: "matrix \<Rightarrow> error + nat" where
  "shape1 d = (if d = [] then Inl IndexError else Inr (ncols d))"

text \<open>An index into an axis of length \<open>n\<close>; a negative index counts from the end.\<close>

definition np_index :: "nat \<Rightarrow> int \<Rightarrow> error + nat" where
  "np_index n i =
     (if 0 \<le> i \<and> i < int n then Inr (nat i)
      else if - int n \<le> i \<and> i < 0 then Inr (nat (int n + i))
      else Inl IndexError)"

text \<open>\<^verbatim>\<open>data[:, i]\<close>\<close>

definition np_column :: "matrix \<Rightarrow> int \<Rightarrow> error + fval list" where
  "np_column d i = ebind (np_index (ncols d) i) (\<lambda>j. Inr (map (\<lambda>r. r ! j) d))"

text \<open>\<^verbatim>\<open>data[r, i]\<close> with a row number \<open>r\<close> that is not negative.\<close>

definition np_item :: "matrix \<Rightarrow> nat \<Rightarrow> int \<Rightarrow> error + fval" where
  "np_item d r i =
     (if r < nrows d then ebind (np_index (ncols d) i) (\<lambda>j. Inr (d ! r ! j))
      else Inl IndexError)"

text \<open>\<^verbatim>\<open>xs[i]\<close> on a Python list, \<open>i\<close> not negative.\<close>

definition py_nth :: "'a list \<Rightarrow> nat \<Rightarrow> error + 'a" where
  "py_nth xs i = (if i < length xs then Inr (xs ! i) else Inl IndexError)"

text \<open>\<^verbatim>\<open>xs.index(x)\<close>: the position of the first element equal to \<open>x\<close>.\<close>

fun first_index :: "'a list \<Rightarrow> 'a \<Rightarrow> nat option" where
  "first_index [] x = None"
| "first_index (y # ys) x =
     (if y = x then Some 0 else map_option Suc (first_index ys x))"

definition py_index :: "'a list \<Rightarrow> 'a \<Rightarrow> error + nat" where
  "py_index xs x = (case first_index xs x of None \<Rightarrow> Inl ValueError | Some i \<Rightarrow> Inr i)"

text \<open>
  \<^verbatim>\<open>a[mask]\<close> with a boolean mask: the mask must be as long as the array; the selected
  elements are copied into a new array.
\<close>

definition np_mask :: "'a list \<Rightarrow> bool list \<Rightarrow> error + 'a list" where
  "np_mask xs bs =
     (if length bs = length xs then Inr (map fst (filter snd (zip xs bs)))
      else Inl IndexError)"

text \<open>\<^verbatim>\<open>xs[:n]\<close>: a negative \<open>n\<close> drops the last \<open>-n\<close> elements.\<close>

definition py_take :: "int \<Rightarrow> 'a list \<Rightarrow> 'a list" where
  "py_take n xs = (if 0 \<le> n then take (nat n) xs else take (length xs - nat (- n)) xs)"

section \<open>The analyzer object and \<^verbatim>\<open>load_data\<close>\<close>

record analyzer =
  data :: matrix
  headers :: "string list"
  country_names :: "string list"
  regional_indicators :: "string list"
  column_map :: "string \<rightharpoonup> nat"

text \<open>The attributes as \<^verbatim>\<open>__init__\<close> sets them before it calls \<^verbatim>\<open>load_data\<close>.\<close>

definition init :: analyzer where
  "init = \<lparr>data = [], headers = [], country_names = [], regional_indicators = [],
           column_map = Map.empty\<rparr>"

text \<open>
  \<^verbatim>\<open>float(val)\<close> is a parameter \<open>pf\<close> of the loader: \<open>pf val = None\<close> stands for ValueError.
  Python's \<^verbatim>\<open>float\<close> accepts the texts of NaN and of the infinities, so \<open>pf\<close> may return them.
\<close>

type_synonym float_parser = "string \<Rightarrow> fval option"

definition to_float :: "float_parser \<Rightarrow> string \<Rightarrow> fval" where
  "to_float pf val = (case pf val of Some x \<Rightarrow> x | None \<Rightarrow> NaN)"

text \<open>\<^verbatim>\<open>for i, header in enumerate(self.headers): self.column_map[header] = i\<close>\<close>

fun map_headers :: "nat \<Rightarrow> string list \<Rightarrow> (string \<rightharpoonup> nat) \<Rightarrow> (string \<rightharpoonup> nat)" where
  "map_headers i [] m = m"
| "map_headers i (header # hs) m = map_headers (Suc i) hs (m(header \<mapsto> i))"

text \<open>
  The loop over the data rows.  The state is the analyzer (its two name lists grow) and
  the local list \<open>rows\<close> of numeric rows.
\<close>

fun read_rows ::
  "float_parser \<Rightarrow> string list list \<Rightarrow> analyzer \<times> fval list list \<Rightarrow> analyzer \<times> fval list list"
where
  "read_rows pf [] st = st"
| "read_rows pf (row # rest) (s, rows) =
     (if row \<noteq> [] \<and> length row > 2 then
        read_rows pf rest
          (s\<lparr>country_names := country_names s @ [row ! 0],
             regional_indicators := regional_indicators s @ [row ! 1]\<rparr>,
           rows @ [map (to_float pf) (drop 2 row)])
      else read_rows pf rest (s, rows))"

text \<open>
  \<^verbatim>\<open>load_data\<close> on the records the CSV reader yields.  \<^verbatim>\<open>next(reader)\<close> on no record at all
  raises StopIteration; the closing \<^verbatim>\<open>print\<close> reads \<^verbatim>\<open>self.data.shape[1]\<close>.
\<close>

definition load_data :: "float_parser \<Rightarrow> string list list \<Rightarrow> analyzer \<Rightarrow> error + analyzer" where
  "load_data pf records s0 =
     (case records of
        [] \<Rightarrow> Inl StopIteration
      | hdr # rest \<Rightarrow>
          (let s1 = s0\<lparr>headers := hdr, column_map := map_headers 0 hdr (column_map s0)\<rparr>;
               (s2, rows) = read_rows pf rest (s1, [])
           in ebind (np_array rows) (\<lambda>d.
              let s3 = s2\<lparr>data := d\<rparr>
              in ebind (shape1 (data s3)) (\<lambda>_. Inr s3))))"

text \<open>The constructor: \<^verbatim>\<open>HappinessAnalyzer(csv_file)\<close>.\<close>

definition new_analyzer :: "float_parser \<Rightarrow> string list list \<Rightarrow> error + analyzer" where
  "new_analyzer pf records = load_data pf records init"

section \<open>Column lookup\<close>

definition get_column_index :: "analyzer \<Rightarrow> string \<Rightarrow> error + int" where
  "get_column_index s column_name =
     (case column_map s column_name of
        None \<Rightarrow> Inl KeyError
      | Some i \<Rightarrow> Inr (int i - 2))"

section \<open>NumPy reductions\<close>

text \<open>
  The sum of a float64 array (\<^verbatim>\<open>np.add.reduce\<close>) is NumPy's pairwise summation: fewer than
  8 elements are added from left to right; up to 128 elements are added into eight
  accumulators, element \<open>i\<close> into accumulator \<open>i mod 8\<close>, the accumulators are added in
  pairs and the elements after the last full block of eight from left to right; a longer
  array is split near its middle, at a multiple of 8, and the sums of the halves are
  added.
\<close>

definition unrolled_sum :: "fval list \<Rightarrow> fval" where
  "unrolled_sum a =
     (let blocks = length a div 8;
          r = foldl (\<lambda>r k. map (\<lambda>(x, y). fadd x y) (zip r (take 8 (drop (8 * k) a))))
                (take 8 a) [1..<blocks];
          res = fadd (fadd (fadd (r ! 0) (r ! 1)) (fadd (r ! 2) (r ! 3)))
                     (fadd (fadd (r ! 4) (r ! 5)) (fadd (r ! 6) (r ! 7)))
      in foldl fadd res (drop (8 * blocks) a))"

function pairwise_sum :: "fval list \<Rightarrow> fval" where
  "pairwise_sum a =
     (if length a < 8 then foldl fadd (Fin 0) a
      else if length a \<le> 128 then unrolled_sum a
      else fadd (pairwise_sum (take (length a div 2 - length a div 2 mod 8) a))
                (pairwise_sum (drop (length a div 2 - length a div 2 mod 8) a)))"
  by pat_completeness auto

termination
  by (relation "measure length") auto

declare pairwise_sum.simps [simp del]

text \<open>
  \<^verbatim>\<open>np.mean\<close> divides the sum by the number of elements.  \<^verbatim>\<open>np.var\<close> subtracts the mean,
  squares, sums and divides by \<^verbatim>\<open>max(n - ddof, 0)\<close>; \<^verbatim>\<open>np.std\<close> is its square root, and the
  program calls it with the default \<^verbatim>\<open>ddof=0\<close>.  \<^verbatim>\<open>np.mean\<close>, \<^verbatim>\<open>np.std\<close> and \<^verbatim>\<open>np.median\<close> of
  an empty array warn and return NaN; \<^verbatim>\<open>np.min\<close> and \<^verbatim>\<open>np.max\<close> of an empty array raise
  ValueError (the reduction has no identity).  The length of an array is converted to
  float64 without rounding: it is below \<open>2^53\<close>.
\<close>

definition np_mean :: "fval list \<Rightarrow> fval" where
  "np_mean xs = fdiv (pairwise_sum xs) (Fin (real (length xs)))"

definition np_var :: "nat \<Rightarrow> fval list \<Rightarrow> fval" where
  "np_var ddof xs =
     (let arrmean = np_mean xs;
          x = map (\<lambda>v. fsub v arrmean) xs;
          x = map (\<lambda>v. fmul v v) x
      in fdiv (pairwise_sum x) (Fin (real (length xs - ddof))))"

definition np_std :: "fval list \<Rightarrow> fval" where
  "np_std xs = fsqrt (np_var 0 xs)"

definition fmin :: "fval \<Rightarrow> fval \<Rightarrow> fval" where
  "fmin a b = (if isnan a \<or> isnan b then NaN else if fkey b < fkey a then b else a)"

definition fmax :: "fval \<Rightarrow> fval \<Rightarrow> fval" where
  "fmax a b = (if isnan a \<or> isnan b then NaN else if fkey a < fkey b then b else a)"

definition np_min :: "fval list \<Rightarrow> error + fval" where
  "np_min xs = (case xs of [] \<Rightarrow> Inl ValueError | x # rest \<Rightarrow> Inr (foldl fmin x rest))"

definition np_max :: "fval list \<Rightarrow> error + fval" where
  "np_max xs = (case xs of [] \<Rightarrow> Inl ValueError | x # rest \<Rightarrow> Inr (foldl fmax x rest))"

text \<open>
  \<^verbatim>\<open>np.median\<close>: NaN if the array is empty or holds a NaN, else the mean of the middle
  element, or of the two middle elements, of the sorted array.
\<close>

definition np_median :: "fval list \<Rightarrow> fval" where
  "np_median xs =
     (if xs = [] \<or> list_ex isnan xs then NaN
      else let part = sort_key fkey xs; sz = length xs; index = sz div 2
           in if sz mod 2 = 1 then np_mean [part ! index]
              else np_mean [part ! (index - 1), part ! index])"

text \<open>
  \<^verbatim>\<open>np.nanmean\<close> and \<^verbatim>\<open>np.nanvar\<close> work on a copy of the array in which 0 replaces every
  NaN, and divide by the number of entries that are not NaN.  \<^verbatim>\<open>np.nanvar\<close> sets the
  deviations of the replaced entries to 0 again before it squares, and returns NaN if the
  divisor \<^verbatim>\<open>cnt - ddof\<close> is not positive.  \<^verbatim>\<open>np.nanstd\<close> is its square root, called with the
  default \<^verbatim>\<open>ddof=0\<close>.
\<close>

definition replace_nan :: "fval list \<Rightarrow> fval list" where
  "replace_nan a = map (\<lambda>v. if isnan v then Fin 0 else v) a"

definition np_nanmean :: "fval list \<Rightarrow> fval" where
  "np_nanmean a =
     (let arr = replace_nan a;
          cnt = length (filter (\<lambda>v. \<not> isnan v) a)
      in fdiv (pairwise_sum arr) (Fin (real cnt)))"

definition np_nanvar :: "nat \<Rightarrow> fval list \<Rightarrow> fval" where
  "np_nanvar ddof a =
     (let arr = replace_nan a;
          cnt = length (filter (\<lambda>v. \<not> isnan v) a);
          avg = fdiv (pairwise_sum arr) (Fin (real cnt));
          arr = map (\<lambda>v. fsub v avg) arr;
          arr = map (\<lambda>(v, d). if isnan v then Fin 0 else d) (zip a arr);
          sqr = map (\<lambda>d. fmul d d) arr;
          var = fdiv (pairwise_sum sqr) (Fin (real_of_int (int cnt - int ddof)))
      in if int cnt - int ddof \<le> 0 then NaN else var)"

definition np_nanstd :: "fval list \<Rightarrow> fval" where
  "np_nanstd a = fsqrt (np_nanvar 0 a)"

section \<open>\<^verbatim>\<open>np.corrcoef\<close>\<close>

text \<open>
  The result of \<^verbatim>\<open>np.cov\<close> and \<^verbatim>\<open>np.corrcoef\<close> on the rows of a two-dimensional array (one
  row per variable).  \<^verbatim>\<open>np.cov\<close> ends with \<^verbatim>\<open>c.squeeze()\<close>, so for a single variable its
  result has no axes, and \<^verbatim>\<open>np.corrcoef\<close> then returns \<^verbatim>\<open>c / c\<close>.

  \<^verbatim>\<open>np.cov\<close> hands the product of the centred matrix with its transpose to the BLAS
  library, which does not fix the order of its additions or their rounding.  The inner
  product of two rows is therefore a parameter \<open>dot\<close>.  The mean of each row is
  \<^verbatim>\<open>X.mean(axis=1)\<close>: the row of a single variable is contiguous and summed pairwise; with
  several variables the matrix handed over by \<^verbatim>\<open>get_correlation_matrix\<close> is a transpose,
  its rows are not along the fast axis in memory, and NumPy adds each row from left to
  right.
\<close>

datatype ndresult = Scalar fval | Matrix "fval list list"

type_synonym blas_dot = "fval list \<Rightarrow> fval list \<Rightarrow> fval"

definition row_mean :: "nat \<Rightarrow> fval list \<Rightarrow> fval" where
  "row_mean variables row =
     (if variables = 1 then np_mean row
      else fdiv (foldl fadd (Fin 0) row) (Fin (real (length row))))"

text \<open>
  \<^verbatim>\<open>np.cov\<close> with its defaults (\<^verbatim>\<open>ddof=1\<close>): the normalisation \<^verbatim>\<open>fact\<close> is the number of
  observations minus one, replaced by \<open>0.0\<close> (with a warning) when that is not positive.
  The product is multiplied by the rounded reciprocal of \<^verbatim>\<open>fact\<close>.
\<close>

definition np_cov :: "blas_dot \<Rightarrow> fval list list \<Rightarrow> ndresult" where
  "np_cov dot X =
     (if X = [] then Matrix []
      else let n = length (hd X);
               fact = (if int n - 1 \<le> 0 then 0 else real n - 1);
               Xc = map (\<lambda>row. map (\<lambda>v. fsub v (row_mean (length X) row)) row) X;
               c = map (\<lambda>r1. map (\<lambda>r2. fmul (dot r1 r2) (fdiv (Fin 1) (Fin fact))) Xc) Xc
           in if length X = 1 then Scalar (hd (hd c)) else Matrix c)"

definition fclip :: "fval \<Rightarrow> fval" where
  "fclip v = (if isnan v then NaN else if fkey v < fkey (Fin (- 1)) then Fin (- 1)
              else if fkey (Fin 1) < fkey v then Fin 1 else v)"

definition np_corrcoef :: "blas_dot \<Rightarrow> fval list list \<Rightarrow> ndresult" where
  "np_corrcoef dot X =
     (case np_cov dot X of
        Scalar c \<Rightarrow> Scalar (fdiv c c)
      | Matrix c \<Rightarrow>
          (let stddev = map (\<lambda>i. fsqrt (c ! i ! i)) [0..<length c]
           in Matrix (map (\<lambda>i. map (\<lambda>j. fclip (fdiv (fdiv (c ! i ! j) (stddev ! i)) (stddev ! j)))
                                      [0..<length c]) [0..<length c])))"

section \<open>The queries\<close>

record statistics =
  mean :: fval
  median :: fval
  std :: fval
  minv :: fval
  maxv :: fval
  cnt :: nat

definition get_basic_statistics :: "analyzer \<Rightarrow> string \<Rightarrow> error + statistics" where
  "get_basic_statistics s column_name =
     ebind (get_column_index s column_name) (\<lambda>col_idx.
     ebind (np_column (data s) col_idx) (\<lambda>column_data.
     let clean_data = filter (\<lambda>v. \<not> isnan v) column_data;
         m = np_mean clean_data;
         md = np_median clean_data;
         sd = np_std clean_data
     in ebind (np_min clean_data) (\<lambda>mn.
        ebind (np_max clean_data) (\<lambda>mx.
        Inr \<lparr>mean = m, median = md, std = sd, minv = mn, maxv = mx,
             cnt = length clean_data\<rparr>))))"

text \<open>
  \<^verbatim>\<open>np.argsort\<close> is a parameter of the two ranking queries.  Its default kind
  (\<^verbatim>\<open>quicksort\<close>) promises indices that sort the array, not an order among equal values.
\<close>

type_synonym argsort = "fval list \<Rightarrow> nat list"

definition pick :: "string list \<Rightarrow> fval list \<Rightarrow> nat list \<Rightarrow> error + (string \<times> fval) list" where
  "pick valid_countries valid_values sorted_indices =
     emap (\<lambda>i. ebind (py_nth valid_countries i) (\<lambda>c.
               ebind (py_nth valid_values i) (\<lambda>v. Inr (c, v)))) sorted_indices"

definition get_top_countries ::
  "argsort \<Rightarrow> analyzer \<Rightarrow> string \<Rightarrow> int \<Rightarrow> error + (string \<times> fval) list" where
  "get_top_countries np_argsort s column_name n =
     ebind (get_column_index s column_name) (\<lambda>col_idx.
     ebind (np_column (data s) col_idx) (\<lambda>values.
     let valid_indices = map (\<lambda>v. \<not> isnan v) values
     in ebind (np_mask values valid_indices) (\<lambda>valid_values.
        ebind (np_mask (country_names s) valid_indices) (\<lambda>valid_countries.
        let sorted_indices = py_take n (rev (np_argsort valid_values))
        in pick valid_countries valid_values sorted_indices))))"

definition get_bottom_countries ::
  "argsort \<Rightarrow> analyzer \<Rightarrow> string \<Rightarrow> int \<Rightarrow> error + (string \<times> fval) list" where
  "get_bottom_countries np_argsort s column_name n =
     ebind (get_column_index s column_name) (\<lambda>col_idx.
     ebind (np_column (data s) col_idx) (\<lambda>values.
     let valid_indices = map (\<lambda>v. \<not> isnan v) values
     in ebind (np_mask values valid_indices) (\<lambda>valid_values.
        ebind (np_mask (country_names s) valid_indices) (\<lambda>valid_countries.
        let sorted_indices = py_take n (np_argsort valid_values)
        in pick valid_countries valid_values sorted_indices))))"

text \<open>
  \<^verbatim>\<open>filter_by_region\<close>.  A matrix is a list of rows here, so the empty selection does not
  record its number of columns.
\<close>

definition filter_by_region :: "analyzer \<Rightarrow> string \<Rightarrow> error + (string list \<times> matrix)" where
  "filter_by_region s region =
     (let indices = filter (\<lambda>i. regional_indicators s ! i = region)
                      [0..<length (regional_indicators s)]
      in ebind (emap (py_nth (country_names s)) indices) (\<lambda>countries.
         ebind (emap (py_nth (data s)) indices) (\<lambda>d. Inr (countries, d))))"

text \<open>
  \<^verbatim>\<open>np.corrcoef(clean_data.T)\<close>: the selected columns, restricted to the rows that are
  complete in all of them, are handed over one per variable.
\<close>

definition get_correlation_matrix ::
  "blas_dot \<Rightarrow> analyzer \<Rightarrow> string list \<Rightarrow> error + ndresult" where
  "get_correlation_matrix dot s column_names =
     ebind (emap (get_column_index s) column_names) (\<lambda>indices.
     ebind (emap (np_index (ncols (data s))) indices) (\<lambda>js.
     let subset_data = map (\<lambda>r. map (\<lambda>j. r ! j) js) (data s);
         clean_data = filter (\<lambda>r. \<not> list_ex isnan r) subset_data;
         clean_data_T = map (\<lambda>k. map (\<lambda>r. r ! k) clean_data) [0..<length js]
     in Inr (np_corrcoef dot clean_data_T)))"

record region_statistics =
  r_mean :: fval
  r_median :: fval
  r_std :: fval
  r_count :: nat

text \<open>
  The loop of \<^verbatim>\<open>compare_regions\<close> over the distinct regions.  The order in which a Python
  set yields them is not fixed; each region is a different key of the result, and a
  failing column index fails for every region alike, so the order does not affect the
  dictionary returned.
\<close>

fun compare_loop ::
  "analyzer \<Rightarrow> int \<Rightarrow> string list \<Rightarrow> (string \<rightharpoonup> region_statistics)
     \<Rightarrow> error + (string \<rightharpoonup> region_statistics)" where
  "compare_loop s col_idx [] results = Inr results"
| "compare_loop s col_idx (region # rest) results =
     ebind (filter_by_region s region) (\<lambda>(_, region_data).
     ebind (np_column region_data col_idx) (\<lambda>region_values.
     let clean_values = filter (\<lambda>v. \<not> isnan v) region_values
     in compare_loop s col_idx rest
          (if length clean_values > 0
           then results(region \<mapsto>
                  \<lparr>r_mean = np_mean clean_values, r_median = np_median clean_values,
                   r_std = np_std clean_values, r_count = length clean_values\<rparr>)
           else results)))"

definition compare_regions :: "analyzer \<Rightarrow> string \<Rightarrow> error + (string \<rightharpoonup> region_statistics)" where
  "compare_regions s column_name =
     ebind (get_column_index s column_name) (\<lambda>col_idx.
     let unique_regions = remdups (regional_indicators s)
     in compare_loop s col_idx unique_regions Map.empty)"

definition find_outliers ::
  "analyzer \<Rightarrow> string \<Rightarrow> fval \<Rightarrow> error + (string \<times> fval \<times> fval) list" where
  "find_outliers s column_name threshold =
     ebind (get_column_index s column_name) (\<lambda>col_idx.
     ebind (np_column (data s) col_idx) (\<lambda>values.
     let m = np_nanmean values;
         sd = np_nanstd values;
         z_scores = map (\<lambda>v. fabs (fdiv (fsub v m) sd)) values;
         outlier_indices = filter (\<lambda>i. fless threshold (z_scores ! i)) [0..<length z_scores]
     in emap (\<lambda>i. ebind (py_nth (country_names s) i) (\<lambda>c. Inr (c, values ! i, z_scores ! i)))
          (filter (\<lambda>i. \<not> isnan (values ! i)) outlier_indices)))"

datatype pyval = PyStr string | PyFloat fval

fun country_loop ::
  "analyzer \<Rightarrow> nat \<Rightarrow> string list \<Rightarrow> (string \<rightharpoonup> pyval) \<Rightarrow> error + (string \<rightharpoonup> pyval)" where
  "country_loop s idx [] result = Inr result"
| "country_loop s idx (header # hs) result =
     ebind (get_column_index s header) (\<lambda>col_idx.
     ebind (np_item (data s) idx col_idx) (\<lambda>v.
     country_loop s idx hs (result(header \<mapsto> PyFloat v))))"

text \<open>Only the ValueError of \<^verbatim>\<open>index\<close> is caught; any other exception leaves the method.\<close>

definition get_country_data :: "analyzer \<Rightarrow> string \<Rightarrow> error + (string \<rightharpoonup> pyval)" where
  "get_country_data s country_name =
     (case ebind (py_index (country_names s) country_name) (\<lambda>idx.
           ebind (py_nth (regional_indicators s) idx) (\<lambda>region.
           country_loop s idx (drop 2 (headers s))
             [''Country name'' \<mapsto> PyStr country_name,
              ''Regional indicator'' \<mapsto> PyStr region])) of
        Inl ValueError \<Rightarrow> Inr Map.empty
      | r \<Rightarrow> r)"

text \<open>
  \<^verbatim>\<open>np.sum(clean_values < country_value)\<close> is a NumPy integer, so dividing it by a zero
  length gives NaN with a warning, not ZeroDivisionError.  The quotient is rounded, and
  then its product with 100.
\<close>

definition calculate_percentile_rank :: "analyzer \<Rightarrow> string \<Rightarrow> string \<Rightarrow> error + fval" where
  "calculate_percentile_rank s country_name column_name =
     ebind (get_column_index s column_name) (\<lambda>col_idx.
     ebind (py_index (country_names s) country_name) (\<lambda>country_idx.
     ebind (np_item (data s) country_idx col_idx) (\<lambda>country_value.
     ebind (np_column (data s) col_idx) (\<lambda>all_values.
     let clean_values = filter (\<lambda>v. \<not> isnan v) all_values;
         less_count = length (filter (\<lambda>v. fless v country_value) clean_values)
     in Inr (fmul (fdiv (Fin (real less_count)) (Fin (real (length clean_values))))
                  (Fin 100))))))"

section \<open>Well-formed analyzers and example inputs\<close>

text \<open>The test \<^verbatim>\<open>if row and len(row) > 2\<close> of the loader.\<close>

definition admitted :: "string list \<Rightarrow> bool" where
  "admitted row \<longleftrightarrow> row \<noteq> [] \<and> length row > 2"

text \<open>
  What every analyzer that \<^verbatim>\<open>load_data\<close> returns satisfies: a rectangular matrix with at
  least one row and one column, and one name and one region per row.
\<close>

definition wf_analyzer :: "analyzer \<Rightarrow> bool" where
  "wf_analyzer s \<longleftrightarrow>
     data s \<noteq> [] \<and> 0 < ncols (data s) \<and> list_all (\<lambda>r. length r = ncols (data s)) (data s) \<and>
     length (country_names s) = length (data s) \<and>
     length (regional_indicators s) = length (data s)"

text \<open>
  A float parser for the examples: it reads a nonempty string of decimal digits as
  \<^verbatim>\<open>float\<close> does and refuses every other string.  The examples apply it to digit strings
  and to strings that \<^verbatim>\<open>float\<close> refuses as well.
\<close>

definition is_digit :: "char \<Rightarrow> bool" where
  "is_digit c \<longleftrightarrow> (48::nat) \<le> of_char c \<and> of_char c \<le> (57::nat)"

definition digits_float :: float_parser where
  "digits_float val =
     (if val \<noteq> [] \<and> list_all is_digit val
      then Some (Fin (real (foldl (\<lambda>n c. 10 * n + (of_char c - 48)) 0 val)))
      else None)"

text \<open>A file whose header names three features and whose only row has two numeric fields.\<close>

definition wide_records :: "string list list" where
  "wide_records = [[''N'', ''R'', ''F1'', ''F2'', ''F3''], [''A'', ''R1'', ''1'', ''2'']]"

definition wide_analyzer :: analyzer where
  "wide_analyzer = \<lparr>data = [[Fin 1, Fin 2]], headers = [''N'', ''R'', ''F1'', ''F2'', ''F3''],
     country_names = [''A''], regional_indicators = [''R1''],
     column_map = map_headers 0 [''N'', ''R'', ''F1'', ''F2'', ''F3''] Map.empty\<rparr>"

text \<open>
  The scenario of the specification: three rows, two features, the first row without a
  value for the second feature.
\<close>

definition scenario_records :: "string list list" where
  "scenario_records =
     [[''N'', ''R'', ''F1'', ''F2''],
      [''A'', ''R1'', ''1'', ''''],
      [''B'', ''R1'', ''2'', ''5''],
      [''C'', ''R2'', ''3'', ''5'']]"

definition scenario :: analyzer where
  "scenario = \<lparr>data = [[Fin 1, NaN], [Fin 2, Fin 5], [Fin 3, Fin 5]],
     headers = [''N'', ''R'', ''F1'', ''F2''],
     country_names = [''A'', ''B'', ''C''], regional_indicators = [''R1'', ''R1'', ''R2''],
     column_map = map_headers 0 [''N'', ''R'', ''F1'', ''F2''] Map.empty\<rparr>"

text \<open>Two rows whose second feature is missing in both.\<close>

definition missing_records :: "string list list" where
  "missing_records =
     [[''N'', ''R'', ''F1'', ''F2''],
      [''A'', ''R1'', ''1'', ''''],
      [''B'', ''R1'', ''2'', '''']]"

definition missing_analyzer :: analyzer where
  "missing_analyzer = \<lparr>data = [[Fin 1, NaN], [Fin 2, NaN]],
     headers = [''N'', ''R'', ''F1'', ''F2''],
     country_names = [''A'', ''B''], regional_indicators = [''R1'', ''R1''],
     column_map = map_headers 0 [''N'', ''R'', ''F1'', ''F2''] Map.empty\<rparr>"

text \<open>A file with a single feature.\<close>

definition single_records :: "string list list" where
  "single_records = [[''N'', ''R'', ''F1''], [''A'', ''R1'', ''1''], [''B'', ''R2'', ''3'']]"

definition single_analyzer :: analyzer where
  "single_analyzer = \<lparr>data = [[Fin 1], [Fin 3]], headers = [''N'', ''R'', ''F1''],
     country_names = [''A'', ''B''], regional_indicators = [''R1'', ''R2''],
     column_map = map_headers 0 [''N'', ''R'', ''F1''] Map.empty\<rparr>"

text \<open>
  What \<^verbatim>\<open>np.argsort\<close> promises for an array \<open>vs\<close> without NaN: its result holds every
  index once and lists the values in ascending order.
\<close>

definition argsort_ok :: "fval list \<Rightarrow> nat list \<Rightarrow> bool" where
  "argsort_ok vs idx \<longleftrightarrow>
     sort idx = [0..<length vs] \<and> sorted_wrt (\<lambda>i j. fkey (vs ! i) \<le> fkey (vs ! j)) idx"

text \<open>
  The argsort that keeps equal values in index order.  NumPy's scalar quicksort is an
  insertion sort on arrays of at most 16 elements and agrees with it there; a vectorised
  build may order equal values otherwise, which \<open>argsort_ok\<close> allows.
\<close>

definition insertion_argsort :: argsort where
  "insertion_argsort vs = sort_key (\<lambda>i. fkey (vs ! i)) [0..<length vs]"

text \<open>Two rows with the same value.\<close>

definition tie_records :: "string list list" where
  "tie_records = [[''N'', ''R'', ''F1''], [''A'', ''R1'', ''5''], [''B'', ''R1'', ''5'']]"

definition tie_analyzer :: analyzer where
  "tie_analyzer = \<lparr>data = [[Fin 5], [Fin 5]], headers = [''N'', ''R'', ''F1''],
     country_names = [''A'', ''B''], regional_indicators = [''R1'', ''R1''],
     column_map = map_headers 0 [''N'', ''R'', ''F1''] Map.empty\<rparr>"

text \<open>
  The reference implementation of the BLAS inner product: the products are added from
  left to right.
\<close>

definition seq_dot :: blas_dot where
  "seq_dot xs ys = foldl (\<lambda>acc (x, y). fadd acc (fmul x y)) (Fin 0) (zip xs ys)"

text \<open>
  The standard deviations the claims speak of, for an array of \<open>N\<close> numbers without NaN:
  the squared deviations from the mean are summed and divided by \<open>N\<close> (population) or by
  \<open>N - 1\<close> (sample), in the arithmetic of the program.
\<close>

definition mean_of :: "fval list \<Rightarrow> fval" where
  "mean_of vs = fdiv (pairwise_sum vs) (Fin (real (length vs)))"

definition sum_sq_dev :: "fval list \<Rightarrow> fval" where
  "sum_sq_dev vs =
     pairwise_sum (map (\<lambda>v. fmul (fsub v (mean_of vs)) (fsub v (mean_of vs))) vs)"

definition population_std :: "fval list \<Rightarrow> fval" where
  "population_std vs = fsqrt (fdiv (sum_sq_dev vs) (Fin (real (length vs))))"


text \<open>
  The same for a column with missing cells, as \<^verbatim>\<open>find_outliers\<close> has it: \<open>N\<close> is the number
  of cells that are not NaN, and a missing cell adds 0 to either sum.
\<close>

definition present :: "fval list \<Rightarrow> nat" where
  "present vs = length (filter (\<lambda>v. \<not> isnan v) vs)"

definition nan_mean_of :: "fval list \<Rightarrow> fval" where
  "nan_mean_of vs =
     fdiv (pairwise_sum (map (\<lambda>v. if isnan v then Fin 0 else v) vs)) (Fin (real (present vs)))"

definition nan_sum_sq_dev :: "fval list \<Rightarrow> fval" where
  "nan_sum_sq_dev vs =
     pairwise_sum (map (\<lambda>v. if isnan v then Fin 0
                             else fmul (fsub v (nan_mean_of vs)) (fsub v (nan_mean_of vs))) vs)"

definition nan_population_std :: "fval list \<Rightarrow> fval" where
  "nan_population_std vs = fsqrt (fdiv (nan_sum_sq_dev vs) (Fin (real (present vs))))"

definition nan_sample_std :: "fval list \<Rightarrow> fval" where
  "nan_sample_std vs = fsqrt (fdiv (nan_sum_sq_dev vs) (Fin (real (present vs) - 1)))"



text \<open>A covariance for which \<^verbatim>\<open>c / c\<close> is 1: a number other than zero.\<close>

definition nonzero_number :: "fval \<Rightarrow> bool" where
  "nonzero_number c = (case c of Fin a \<Rightarrow> a \<noteq> 0 | _ \<Rightarrow> False)"

section \<open>Properties\<close>

section \<open>The loader\<close>

lemma read_rows_eq:
  "read_rows pf rs (s, rows) =
     (s\<lparr>country_names := country_names s @ map (\<lambda>r. r ! 0) (filter admitted rs),
        regional_indicators := regional_indicators s @ map (\<lambda>r. r ! 1) (filter admitted rs)\<rparr>,
      rows @ map (\<lambda>r. map (to_float pf) (drop 2 r)) (filter admitted rs))"
  by (induction rs arbitrary: s rows) (simp_all add: admitted_def)

lemma new_analyzer_Inr:
  assumes "new_analyzer pf records = Inr s"
  shows "\<exists>hdr rest. records = hdr # rest \<and> filter admitted rest \<noteq> []
     \<and> data s = map (\<lambda>r. map (to_float pf) (drop 2 r)) (filter admitted rest)
     \<and> country_names s = map (\<lambda>r. r ! 0) (filter admitted rest)
     \<and> regional_indicators s = map (\<lambda>r. r ! 1) (filter admitted rest)
     \<and> headers s = hdr
     \<and> column_map s = map_headers 0 hdr Map.empty
     \<and> list_all (\<lambda>r. length r = length (hd (filter admitted rest))) (filter admitted rest)"
proof (cases records)
  case Nil
  with assms show ?thesis by (simp add: new_analyzer_def load_data_def)
next
  case (Cons hdr rest)
  let ?adm = "filter admitted rest"
  let ?rows = "map (\<lambda>r. map (to_float pf) (drop 2 r)) ?adm"
  from assms Cons have ok: "np_array ?rows = Inr ?rows" and ne: "?rows \<noteq> []"
    and s: "s = init\<lparr>headers := hdr, column_map := map_headers 0 hdr (column_map init),
              country_names := country_names init @ map (\<lambda>r. r ! 0) ?adm,
              regional_indicators := regional_indicators init @ map (\<lambda>r. r ! 1) ?adm,
              data := ?rows\<rparr>"
    by (auto simp: new_analyzer_def load_data_def read_rows_eq ebind_def np_array_def shape1_def
        Let_def split: if_splits)
  from ok have "list_all (\<lambda>r. length r = length (hd ?rows)) ?rows"
    by (simp add: np_array_def split: if_splits)
  with ne have "list_all (\<lambda>r. length r = length (hd ?adm)) ?adm"
    by (auto simp: list_all_iff hd_map admitted_def)
  with ne s Cons show ?thesis by (simp add: init_def)
qed

lemma new_analyzer_wf:
  assumes "new_analyzer pf records = Inr s"
  shows "wf_analyzer s"
proof -
  from new_analyzer_Inr [OF assms] obtain hdr rest where
    ne: "filter admitted rest \<noteq> []"
    and d: "data s = map (\<lambda>r. map (to_float pf) (drop 2 r)) (filter admitted rest)"
    and c: "country_names s = map (\<lambda>r. r ! 0) (filter admitted rest)"
    and r: "regional_indicators s = map (\<lambda>r. r ! 1) (filter admitted rest)"
    and a: "list_all (\<lambda>r. length r = length (hd (filter admitted rest))) (filter admitted rest)"
    by blast
  from ne obtain x xs where x: "filter admitted rest = x # xs" by (cases "filter admitted rest") auto
  then have "admitted x" by (metis filter_eq_ConsD)
  with a x d c r show ?thesis
    by (auto simp: wf_analyzer_def ncols_def admitted_def list_all_iff)
qed

lemma digits_float_simps:
  "digits_float ''1'' = Some (Fin 1)" "digits_float ''2'' = Some (Fin 2)"
  "digits_float ''3'' = Some (Fin 3)" "digits_float ''5'' = Some (Fin 5)"
  "digits_float [] = None"
  by (simp_all add: digits_float_def is_digit_def)

lemma wide_analyzer_loaded: "new_analyzer digits_float wide_records = Inr wide_analyzer"
  by (simp add: new_analyzer_def load_data_def wide_records_def wide_analyzer_def init_def
      np_array_def shape1_def ebind_def ncols_def to_float_def digits_float_simps)

text \<open>
  Claim C6, as stated: every accepted input gives as many feature names (header fields
  after the first two) as matrix columns.  It fails on a header that is wider than the
  rows: the loader never compares a row with the header.
\<close>

theorem load_data_shape_counterexample:
  "new_analyzer digits_float wide_records = Inr wide_analyzer
   \<and> length (drop 2 (headers wide_analyzer)) = 3 \<and> ncols (data wide_analyzer) = 2"
  by (simp add: wide_analyzer_loaded) (simp add: wide_analyzer_def ncols_def)

text \<open>
  Claim C6, amended: for every accepted input the two name lists are as long as the matrix
  has rows (at least one), the matrix has two columns fewer than every admitted row has
  fields, and the feature names are as many as the columns exactly when every admitted
  row has as many fields as the header.
\<close>

theorem load_data_shape:
  assumes "new_analyzer pf records = Inr s"
  shows "length (country_names s) = nrows (data s)
     \<and> length (regional_indicators s) = nrows (data s)
     \<and> 0 < nrows (data s)
     \<and> (\<forall>row \<in> set (tl records). admitted row \<longrightarrow> ncols (data s) + 2 = length row)
     \<and> (length (drop 2 (headers s)) = ncols (data s)
          \<longleftrightarrow> (\<forall>row \<in> set (tl records). admitted row \<longrightarrow> length row = length (hd records)))"
proof -
  from new_analyzer_Inr [OF assms] obtain hdr rest where
    recs: "records = hdr # rest"
    and ne: "filter admitted rest \<noteq> []"
    and d: "data s = map (\<lambda>r. map (to_float pf) (drop 2 r)) (filter admitted rest)"
    and c: "country_names s = map (\<lambda>r. r ! 0) (filter admitted rest)"
    and r: "regional_indicators s = map (\<lambda>r. r ! 1) (filter admitted rest)"
    and h: "headers s = hdr"
    and a: "list_all (\<lambda>r. length r = length (hd (filter admitted rest))) (filter admitted rest)"
    by blast
  from ne obtain x xs where x: "filter admitted rest = x # xs"
    by (cases "filter admitted rest") auto
  have "x \<in> set (filter admitted rest)" by (simp add: x)
  then have ax: "admitted x" and xin: "x \<in> set rest" by simp_all
  have nc: "ncols (data s) + 2 = length x"
    using ax by (auto simp: d x ncols_def admitted_def)
  have hx: "hd (filter admitted rest) = x" by (simp add: x)
  from a have "\<forall>r \<in> set (filter admitted rest). length r = length x"
    by (simp only: list_all_iff hx)
  then have same: "\<forall>row \<in> set rest. admitted row \<longrightarrow> length row = length x"
    by simp
  have rows: "\<forall>row \<in> set (tl records). admitted row \<longrightarrow> ncols (data s) + 2 = length row"
    using same nc by (simp add: recs)
  have "length (drop 2 (headers s)) = ncols (data s) \<longleftrightarrow> length hdr = length x"
    using nc ax by (auto simp: h admitted_def)
  also have "\<dots> \<longleftrightarrow> (\<forall>row \<in> set (tl records). admitted row \<longrightarrow> length row = length (hd records))"
    using same ax xin unfolding recs list.sel by metis
  finally show ?thesis using rows by (simp add: c r d nrows_def x)
qed

theorem load_data_shape_witness:
  "new_analyzer digits_float wide_records = Inr wide_analyzer
   \<and> length (country_names wide_analyzer) = nrows (data wide_analyzer)
   \<and> ncols (data wide_analyzer) + 2 = length (wide_records ! 1)
   \<and> length (drop 2 (headers wide_analyzer)) \<noteq> ncols (data wide_analyzer)"
  using load_data_shape [OF wide_analyzer_loaded] wide_analyzer_loaded
  by (simp add: wide_records_def admitted_def)

section \<open>Example inputs, loaded\<close>

lemmas load_defs = new_analyzer_def load_data_def init_def
      np_array_def shape1_def ebind_def ncols_def to_float_def digits_float_simps

lemma scenario_loaded: "new_analyzer digits_float scenario_records = Inr scenario"
  by (simp add: load_defs scenario_records_def scenario_def)

lemma missing_loaded: "new_analyzer digits_float missing_records = Inr missing_analyzer"
  by (simp add: load_defs missing_records_def missing_analyzer_def)

lemma single_loaded: "new_analyzer digits_float single_records = Inr single_analyzer"
  by (simp add: load_defs single_records_def single_analyzer_def)

section \<open>Binary64 rounding\<close>

lemma rne_bounds: "\<lfloor>q\<rfloor> \<le> rne q" "rne q \<le> \<lfloor>q\<rfloor> + 1"
  by (simp_all add: rne_def Let_def)

lemma rne_of_int [simp]: "rne (of_int m) = m"
  by (simp add: rne_def)

lemma rne_zero [simp]: "rne 0 = 0"
  using rne_of_int [of 0] by simp

lemma rne_mono: assumes "q \<le> r" shows "rne q \<le> rne r"
proof (cases "\<lfloor>q\<rfloor> = \<lfloor>r\<rfloor>")
  case True
  with assms have "q - of_int \<lfloor>q\<rfloor> \<le> r - of_int \<lfloor>r\<rfloor>" by simp
  with True show ?thesis by (auto simp: rne_def Let_def)
next
  case False
  with assms have "\<lfloor>q\<rfloor> < \<lfloor>r\<rfloor>" by (simp add: floor_mono order.not_eq_order_implies_strict)
  then have "rne q \<le> \<lfloor>r\<rfloor>" using rne_bounds(2) [of q] by linarith
  then show ?thesis using rne_bounds(1) [of r] by linarith
qed

lemma rne_le: "q \<le> of_int m \<Longrightarrow> rne q \<le> m"
  using rne_mono [of q "of_int m"] by simp

lemma rne_ge: "of_int m \<le> q \<Longrightarrow> m \<le> rne q"
  using rne_mono [of "of_int m" q] by simp

lemma rne_err: "\<bar>of_int (rne q) - q\<bar> \<le> 1 / 2"
proof -
  have "of_int \<lfloor>q\<rfloor> \<le> q" "q < of_int \<lfloor>q\<rfloor> + 1" by linarith+
  then show ?thesis by (auto simp: rne_def Let_def)
qed

lemma rne_eqI: assumes "\<bar>q - of_int m\<bar> < 1 / 2" shows "rne q = m"
proof -
  have e: "\<bar>of_int (rne q) - q\<bar> \<le> 1 / 2" by (rule rne_err)
  have "\<bar>(of_int (rne q) :: real) - of_int m\<bar> < 1" using assms e by linarith
  then have "\<bar>of_int (rne q - m) :: real\<bar> < 1" by simp
  then have "\<bar>rne q - m\<bar> < 1" by linarith
  then show ?thesis by linarith
qed

lemma rne_minus: "rne (- q) = - rne q"
proof (cases "q = of_int \<lfloor>q\<rfloor>")
  case True
  then obtain m where "q = of_int m" by blast
  then have "- q = of_int (- m)" by simp
  then show ?thesis unfolding \<open>q = of_int m\<close> by (metis rne_of_int)
next
  case False
  then have lt: "of_int \<lfloor>q\<rfloor> < q" by linarith
  have f: "\<lfloor>- q\<rfloor> = - \<lfloor>q\<rfloor> - 1" using lt by linarith
  show ?thesis using lt by (auto simp: rne_def Let_def f)
qed


lemma two_powi_pos [simp]: "0 < (2::real) powi k"
  by (simp add: zero_less_power_int)

lemma two_powi_mono: "j \<le> k \<Longrightarrow> (2::real) powi j \<le> 2 powi k"
  by (rule power_int_increasing) simp_all

lemma two_powi_add: "(2::real) powi (j + k) = 2 powi j * 2 powi k"
  by (simp add: power_int_add)

lemma two_powi_diff: "(2::real) powi (j - k) = 2 powi j / 2 powi k"
  by (simp add: power_int_diff)

lemma expo_ge: "- 1022 \<le> expo x"
  by (simp add: expo_def)

lemma expo_minus [simp]: "expo (- x) = expo x"
  by (simp add: expo_def)

lemma ulp_minus [simp]: "ulp (- x) = ulp x"
  by (simp add: ulp_def)

lemma ulp_pos [simp]: "0 < ulp x"
  by (simp add: ulp_def)

lemma ulp_nonneg [simp]: "0 \<le> ulp x"
  by (simp add: ulp_def)

lemma ulp_neq0 [simp]: "ulp x \<noteq> 0"
  using ulp_pos [of x] by linarith

lemma floor_log2_bounds:
  assumes "x \<noteq> 0"
  shows "2 powi \<lfloor>log 2 \<bar>x\<bar>\<rfloor> \<le> \<bar>x\<bar>" and "\<bar>x\<bar> < 2 powi (\<lfloor>log 2 \<bar>x\<bar>\<rfloor> + 1)"
proof -
  from assms have p: "0 < \<bar>x\<bar>" by simp
  have "2 powr real_of_int \<lfloor>log 2 \<bar>x\<bar>\<rfloor> \<le> \<bar>x\<bar>
      \<and> \<bar>x\<bar> < 2 powr real_of_int (\<lfloor>log 2 \<bar>x\<bar>\<rfloor> + 1)"
    using floor_log_eq_powr_iff [OF p, of 2 "\<lfloor>log 2 \<bar>x\<bar>\<rfloor>"] by simp
  then show "2 powi \<lfloor>log 2 \<bar>x\<bar>\<rfloor> \<le> \<bar>x\<bar>" and "\<bar>x\<bar> < 2 powi (\<lfloor>log 2 \<bar>x\<bar>\<rfloor> + 1)"
    unfolding powr_real_of_int' [of 2, simplified] by simp_all
qed

lemma floor_log2_eqI:
  assumes "2 powi e \<le> \<bar>x\<bar>" and "\<bar>x\<bar> < 2 powi (e + 1)"
  shows "\<lfloor>log 2 \<bar>x\<bar>\<rfloor> = e"
proof -
  have p: "0 < \<bar>x\<bar>" using assms(1) two_powi_pos [of e] by linarith
  have "2 powr real_of_int e \<le> \<bar>x\<bar> \<and> \<bar>x\<bar> < 2 powr real_of_int (e + 1)"
    unfolding powr_real_of_int' [of 2, simplified] using assms by simp
  then show ?thesis
    using floor_log_eq_powr_iff [OF p, of 2 e] by simp
qed

text \<open>The exponent of a number in the normal range, and of a subnormal number.\<close>

lemma expo_eqI:
  assumes "2 powi e \<le> \<bar>x\<bar>" and "\<bar>x\<bar> < 2 powi (e + 1)" and "- 1022 \<le> e"
  shows "expo x = e"
proof -
  have "x \<noteq> 0"
  proof
    assume "x = 0"
    with assms(1) have "(2::real) powi e \<le> 0" by simp
    moreover have "0 < (2::real) powi e" by (rule two_powi_pos)
    ultimately show False by linarith
  qed
  with floor_log2_eqI [OF assms(1,2)] assms(3) show ?thesis by (simp add: expo_def)
qed

lemma expo_upper: "\<bar>x\<bar> < 2 powi (expo x + 1)"
proof (cases "x = 0")
  case True
  then show ?thesis by simp
next
  case False
  have "\<bar>x\<bar> < 2 powi (\<lfloor>log 2 \<bar>x\<bar>\<rfloor> + 1)" by (rule floor_log2_bounds(2) [OF False])
  also have "\<dots> \<le> 2 powi (expo x + 1)" by (rule two_powi_mono) (simp add: expo_def False)
  finally show ?thesis .
qed

lemma expo_lower: assumes "- 1022 < expo x" shows "2 powi expo x \<le> \<bar>x\<bar>"
proof -
  have n: "x \<noteq> 0" using assms by (auto simp: expo_def)
  with assms have e: "expo x = \<lfloor>log 2 \<bar>x\<bar>\<rfloor>" by (simp add: expo_def max_def split: if_splits)
  from floor_log2_bounds(1) [OF n] e show ?thesis by simp
qed

lemma expo_le:
  assumes "\<bar>x\<bar> < 2 powi (e + 1)" and "- 1022 \<le> e"
  shows "expo x \<le> e"
proof (rule ccontr)
  assume "\<not> expo x \<le> e"
  then have l: "e + 1 \<le> expo x" by simp
  with assms(2) have "- 1022 < expo x" by simp
  from expo_lower [OF this] have "2 powi expo x \<le> \<bar>x\<bar>" .
  moreover have "(2::real) powi (e + 1) \<le> 2 powi expo x" by (rule two_powi_mono [OF l])
  ultimately show False using assms(1) by linarith
qed

lemma expo_mono: assumes "\<bar>x\<bar> \<le> \<bar>y\<bar>" shows "expo x \<le> expo y"
proof (rule expo_le)
  show "\<bar>x\<bar> < 2 powi (expo y + 1)" using assms expo_upper [of y] by linarith
  show "- 1022 \<le> expo y" by (rule expo_ge)
qed

lemma rnd_minus: "rnd (- x) = - rnd x"
  by (simp add: rnd_def rne_minus)

lemma rnd_zero [simp]: "rnd 0 = 0"
  by (simp add: rnd_def)

lemma rnd_nonneg: assumes "0 \<le> x" shows "0 \<le> rnd x"
proof -
  have "0 \<le> x / ulp x" using assms by simp
  then have "0 \<le> rne (x / ulp x)" using rne_ge [of 0 "x / ulp x"] by simp
  then show ?thesis by (simp add: rnd_def)
qed

lemma rnd_err: "\<bar>rnd x - x\<bar> \<le> ulp x / 2"
proof -
  have "\<bar>of_int (rne (x / ulp x)) - x / ulp x\<bar> \<le> 1 / 2" by (rule rne_err)
  then have "\<bar>of_int (rne (x / ulp x)) - x / ulp x\<bar> * ulp x \<le> 1 / 2 * ulp x"
    by (rule mult_right_mono) simp
  moreover have "\<bar>of_int (rne (x / ulp x)) - x / ulp x\<bar> * ulp x = \<bar>rnd x - x\<bar>"
  proof -
    have "\<bar>of_int (rne (x / ulp x)) - x / ulp x\<bar> * ulp x
        = \<bar>(of_int (rne (x / ulp x)) - x / ulp x) * ulp x\<bar>"
      by (simp add: abs_mult)
    also have "(of_int (rne (x / ulp x)) - x / ulp x) * ulp x = rnd x - x"
      by (simp add: rnd_def left_diff_distrib)
    finally show ?thesis .
  qed
  ultimately show ?thesis by simp
qed

text \<open>Rounding does not cross a number of the grid of its argument.\<close>

lemma rnd_le_grid:
  assumes "x \<le> of_int m * ulp x" shows "rnd x \<le> of_int m * ulp x"
proof -
  have "x / ulp x \<le> of_int m" using assms by (simp add: pos_divide_le_eq)
  then have "rne (x / ulp x) \<le> m" by (rule rne_le)
  then show ?thesis by (simp add: rnd_def)
qed

lemma rnd_ge_grid:
  assumes "of_int m * ulp x \<le> x" shows "of_int m * ulp x \<le> rnd x"
proof -
  have "of_int m \<le> x / ulp x" using assms by (simp add: pos_le_divide_eq)
  then have "m \<le> rne (x / ulp x)" by (rule rne_ge)
  then show ?thesis by (simp add: rnd_def)
qed

lemma grid_top: "of_int (2 ^ 53) * ulp x = 2 powi (expo x + 1)"
proof -
  have "expo x + 1 = 53 + (expo x - 52)" by simp
  then have "(2::real) powi (expo x + 1) = 2 powi (53 + (expo x - 52))" by (simp only:)
  also have "\<dots> = 2 powi 53 * 2 powi (expo x - 52)" by (rule two_powi_add)
  finally show ?thesis by (simp add: ulp_def)
qed

lemma grid_bottom: "of_int (2 ^ 52) * ulp x = 2 powi expo x"
proof -
  have "(2::real) powi expo x = 2 powi (52 + (expo x - 52))" by simp
  also have "\<dots> = 2 powi 52 * 2 powi (expo x - 52)" by (rule two_powi_add)
  finally show ?thesis by (simp add: ulp_def)
qed

lemma rnd_upper: assumes "0 \<le> x" shows "rnd x \<le> 2 powi (expo x + 1)"
proof -
  have "x \<le> of_int (2 ^ 53) * ulp x"
    using expo_upper [of x] assms unfolding grid_top by simp
  from rnd_le_grid [OF this] show ?thesis unfolding grid_top .
qed

lemma rnd_lower: assumes "0 \<le> x" and "- 1022 < expo x" shows "2 powi expo x \<le> rnd x"
proof -
  have "of_int (2 ^ 52) * ulp x \<le> x"
    using expo_lower [OF assms(2)] assms(1) unfolding grid_bottom by simp
  from rnd_ge_grid [OF this] show ?thesis unfolding grid_bottom .
qed

lemma rnd_mono_pos: assumes "0 \<le> x" and "x \<le> y" shows "rnd x \<le> rnd y"
proof -
  have le: "expo x \<le> expo y" by (rule expo_mono) (use assms in simp)
  show ?thesis
  proof (cases "expo x = expo y")
    case True
    then have u: "ulp x = ulp y" by (simp add: ulp_def)
    have "x / ulp y \<le> y / ulp y" using assms(2) by (simp add: divide_right_mono)
    then have "rne (x / ulp y) \<le> rne (y / ulp y)" by (rule rne_mono)
    then show ?thesis by (simp add: rnd_def u mult_right_mono)
  next
    case False
    with le have lt: "expo x + 1 \<le> expo y" by simp
    then have n: "- 1022 < expo y" using expo_ge [of x] by linarith
    have "rnd x \<le> 2 powi (expo x + 1)" by (rule rnd_upper [OF assms(1)])
    also have "\<dots> \<le> 2 powi expo y" by (rule two_powi_mono [OF lt])
    also have "\<dots> \<le> rnd y" by (rule rnd_lower [OF _ n]) (use assms in simp)
    finally show ?thesis .
  qed
qed

lemma rnd_mono: assumes "x \<le> y" shows "rnd x \<le> rnd y"
proof -
  consider "0 \<le> x" | "x < 0" "0 \<le> y" | "y < 0" by linarith
  then show ?thesis
  proof cases
    case 1
    then show ?thesis by (rule rnd_mono_pos [OF _ assms])
  next
    case 2
    have "0 \<le> rnd (- x)" by (rule rnd_nonneg) (use 2 in simp)
    then have "rnd x \<le> 0" by (simp add: rnd_minus)
    also have "0 \<le> rnd y" by (rule rnd_nonneg [OF 2(2)])
    finally show ?thesis .
  next
    case 3
    have "rnd (- y) \<le> rnd (- x)" by (rule rnd_mono_pos) (use 3 assms in simp_all)
    then show ?thesis by (simp add: rnd_minus)
  qed
qed

lemma round64_zero [simp]: "round64 0 = Fin 0"
  by (simp add: round64_def)

lemma round64_not_nan [simp]: "round64 x \<noteq> NaN" "\<not> isnan (round64 x)"
  by (simp_all add: round64_def inf_of_sign_def)

lemma rnd_pos_imp: assumes "0 < rnd x" shows "0 < x"
proof (rule ccontr)
  assume "\<not> 0 < x"
  then have "0 \<le> rnd (- x)" by (intro rnd_nonneg) simp
  with assms show False by (simp add: rnd_minus)
qed

text \<open>Rounding is monotone, also where it overflows.\<close>

lemma round64_mono: assumes "x \<le> y" shows "fkey (round64 x) \<le> fkey (round64 y)"
proof -
  define B :: real where "B = 2 ^ 1024"
  have big: "0 < B" by (simp add: B_def)
  have r: "round64 z = (if B \<le> \<bar>rnd z\<bar> then inf_of_sign z else Fin (rnd z))" for z
    unfolding B_def round64_def ..
  have m: "rnd x \<le> rnd y" by (rule rnd_mono [OF assms])
  consider "B \<le> rnd x" | "rnd x \<le> - B" | "\<bar>rnd x\<bar> < B" "B \<le> rnd y"
    | "\<bar>rnd x\<bar> < B" "\<bar>rnd y\<bar> < B"
    using m by linarith
  then show ?thesis
  proof cases
    case 1
    then have "0 < rnd x" using big by linarith
    then have "0 < x" by (rule rnd_pos_imp)
    with assms have "0 < y" by simp
    moreover from 1 m have "B \<le> \<bar>rnd x\<bar>" "B \<le> \<bar>rnd y\<bar>" by linarith+
    ultimately show ?thesis using \<open>0 < x\<close> by (simp add: r inf_of_sign_def)
  next
    case 2
    then have "rnd x < 0" using big by linarith
    then have "\<not> 0 < x" using rnd_nonneg [of x] by auto
    moreover from 2 have "B \<le> \<bar>rnd x\<bar>" by linarith
    ultimately have "round64 x = NInf" by (simp add: r inf_of_sign_def)
    then show ?thesis by (cases "round64 y") (simp_all add: less_eq_prod_def)
  next
    case 3
    then have "0 < rnd y" using big by linarith
    then have "0 < y" by (rule rnd_pos_imp)
    moreover from 3 have "\<not> B \<le> \<bar>rnd x\<bar>" "B \<le> \<bar>rnd y\<bar>" by linarith+
    ultimately show ?thesis by (simp add: r inf_of_sign_def less_eq_prod_def)
  next
    case 4
    then have "\<not> B \<le> \<bar>rnd x\<bar>" "\<not> B \<le> \<bar>rnd y\<bar>" by linarith+
    with m show ?thesis by (simp add: r less_eq_prod_def)
  qed
qed

text \<open>A binary64 number is its own rounding.\<close>

lemma rnd_exact:
  assumes "x = of_int m * 2 powi j" and "\<bar>m\<bar> < 2 ^ 53" and "- 1074 \<le> j"
  shows "rnd x = x"
proof -
  have "\<bar>x\<bar> = of_int \<bar>m\<bar> * 2 powi j" by (simp add: assms(1) abs_mult)
  also have "\<dots> < of_int (2 ^ 53) * 2 powi j"
    using assms(2) by (intro mult_strict_right_mono) simp_all
  also have "\<dots> = 2 powi (j + 52 + 1)"
  proof -
    have "j + 52 + 1 = 53 + j" by simp
    then have "(2::real) powi (j + 52 + 1) = 2 powi (53 + j)" by (simp only:)
    also have "\<dots> = 2 powi 53 * 2 powi j" by (rule two_powi_add)
    finally show ?thesis by simp
  qed
  finally have "\<bar>x\<bar> < 2 powi (j + 52 + 1)" .
  then have "expo x \<le> j + 52" by (rule expo_le) (use assms(3) in simp)
  define u where "u = expo x - 52"
  from \<open>expo x \<le> j + 52\<close> have "0 \<le> j - u" by (simp add: u_def)
  then obtain k where "j - u = int k" by (rule nonneg_int_cases)
  then have j: "j = u + int k" by simp
  have U: "ulp x = 2 powi u" by (simp add: ulp_def u_def)
  have p: "(2::real) powi j = 2 powi u * 2 ^ k"
    unfolding j two_powi_add by simp
  have "x / 2 powi u = of_int m * 2 powi j / 2 powi u" by (simp only: assms(1))
  also have "\<dots> = of_int m * 2 ^ k" by (simp add: p)
  also have "\<dots> = of_int (m * 2 ^ k)" by simp
  finally have "rne (x / 2 powi u) = m * 2 ^ k" by (simp only: rne_of_int)
  then have "rnd x = of_int (m * 2 ^ k) * 2 powi u" by (simp only: rnd_def U)
  also have "\<dots> = of_int m * (2 powi u * 2 ^ k)" by simp
  also have "\<dots> = x" by (simp only: assms(1) p)
  finally show ?thesis .
qed

lemma round64_exact:
  assumes "x = of_int m * 2 powi j" and "\<bar>m\<bar> < 2 ^ 53" and "- 1074 \<le> j" and "\<bar>x\<bar> < 2 ^ 1024"
  shows "round64 x = Fin x"
proof -
  from assms(4) have "\<not> 2 ^ 1024 \<le> \<bar>x\<bar>" by (simp only: not_le)
  then show ?thesis
    unfolding round64_def rnd_exact [OF assms(1,2,3)] by (simp only: if_False)
qed

lemma round64_of_int:
  assumes "\<bar>m\<bar> < 2 ^ 53" shows "round64 (of_int m) = Fin (of_int m)"
proof (rule round64_exact [where m = m and j = 0])
  show "real_of_int m = of_int m * 2 powi 0" by simp
  show "\<bar>m\<bar> < 2 ^ 53" by (rule assms)
  show "- 1074 \<le> (0::int)" by simp
  have "\<bar>real_of_int m\<bar> < 2 ^ 53" using assms by (metis of_int_abs of_int_less_numeral_power_cancel_iff)
  also have "\<dots> < (2::real) ^ 1024" by (rule power_strict_increasing) simp_all
  finally show "\<bar>real_of_int m\<bar> < 2 ^ 1024" .
qed

lemma round64_of_nat:
  assumes "n < 2 ^ 53" shows "round64 (real n) = Fin (real n)"
proof -
  have "\<bar>int n\<bar> < 2 ^ 53" using assms by (metis abs_of_nat of_nat_less_numeral_power_cancel_iff)
  from round64_of_int [OF this] show ?thesis by simp
qed

lemma round64_numeral:
  assumes "(numeral n :: int) < 2 ^ 53" shows "round64 (numeral n) = Fin (numeral n)"
proof -
  have "\<bar>numeral n :: int\<bar> = numeral n" by (rule abs_numeral)
  with assms have "\<bar>numeral n :: int\<bar> < 2 ^ 53" by (simp only:)
  from round64_of_int [OF this] show ?thesis by (simp only: of_int_numeral)
qed

lemma round64_neg_numeral:
  assumes "(numeral n :: int) < 2 ^ 53" shows "round64 (- numeral n) = Fin (- numeral n)"
proof -
  have "\<bar>- numeral n :: int\<bar> = numeral n" by (simp only: abs_minus_cancel abs_numeral)
  with assms have "\<bar>- numeral n :: int\<bar> < 2 ^ 53" by (simp only:)
  from round64_of_int [OF this] show ?thesis by (simp only: of_int_numeral of_int_minus)
qed

lemma round64_one [simp]: "round64 1 = Fin 1"
  using round64_of_int [of 1] by simp

lemma round64_minus_one [simp]: "round64 (- 1) = Fin (- 1)"
  using round64_of_int [of "- 1"] by simp

text \<open>A bound that is a binary64 number bounds the rounded number as well.\<close>

lemma round64_between:
  assumes "round64 a = Fin a" and "round64 b = Fin b" and "a \<le> x" and "x \<le> b"
  shows "\<exists>r. round64 x = Fin r \<and> a \<le> r \<and> r \<le> b"
proof -
  have "fkey (round64 a) \<le> fkey (round64 x)" by (rule round64_mono [OF assms(3)])
  moreover have "fkey (round64 x) \<le> fkey (round64 b)" by (rule round64_mono [OF assms(4)])
  ultimately show ?thesis
    unfolding assms(1,2) by (cases "round64 x") (auto simp: less_eq_prod_def)
qed

lemma round64_mono_Fin:
  assumes "x \<le> y" and "round64 x = Fin a" and "round64 y = Fin b" shows "a \<le> b"
  using round64_mono [OF assms(1)] unfolding assms(2,3) by (simp add: less_eq_prod_def)

lemma round64_Fin_rnd: "round64 x = Fin r \<Longrightarrow> r = rnd x"
  by (simp add: round64_def inf_of_sign_def split: if_splits)

lemma rnd_abs_upper: "\<bar>rnd x\<bar> \<le> 2 powi (expo x + 1)"
proof (cases "0 \<le> x")
  case True
  then have "0 \<le> rnd x" by (rule rnd_nonneg)
  with rnd_upper [OF True] show ?thesis by simp
next
  case False
  then have n: "0 \<le> - x" by simp
  from rnd_nonneg [OF n] rnd_upper [OF n] show ?thesis by (simp add: rnd_minus)
qed

lemma powi_lt_overflow: assumes "e \<le> 1023" shows "(2::real) powi e < 2 ^ 1024"
proof -
  have "(2::real) powi e \<le> 2 powi 1023" by (rule two_powi_mono [OF assms])
  also have "(2::real) powi 1023 = 2 ^ 1023" by (simp only: power_int_numeral)
  also have "(2::real) ^ 1023 < 2 ^ 1024" by (rule power_strict_increasing) simp_all
  finally show ?thesis .
qed

text \<open>The rounding of \<open>x\<close>, from its exponent \<open>e\<close> and the integer nearest to its significand.\<close>

lemma round64_eval:
  assumes "2 powi e \<le> \<bar>x\<bar>" and "\<bar>x\<bar> < 2 powi (e + 1)" and "- 1022 \<le> e" and "e < 1023"
    and "\<bar>x / 2 powi (e - 52) - of_int m\<bar> < 1 / 2"
  shows "round64 x = Fin (of_int m * 2 powi (e - 52))"
proof -
  have e: "expo x = e" by (rule expo_eqI [OF assms(1,2,3)])
  then have u: "ulp x = 2 powi (e - 52)" by (simp add: ulp_def)
  have "rne (x / 2 powi (e - 52)) = m" by (rule rne_eqI [OF assms(5)])
  then have r: "rnd x = of_int m * 2 powi (e - 52)" by (simp only: rnd_def u)
  have "\<bar>rnd x\<bar> \<le> 2 powi (e + 1)" using rnd_abs_upper [of x] by (simp only: e)
  also have "\<dots> < 2 ^ 1024" by (rule powi_lt_overflow) (use assms(4) in simp)
  finally have "\<not> 2 ^ 1024 \<le> \<bar>rnd x\<bar>" by (simp only: not_le)
  then have "round64 x = Fin (rnd x)" unfolding round64_def by (simp only: if_False)
  then show ?thesis by (simp only: r)
qed

lemma rnd_err_bound:
  assumes "\<bar>x\<bar> < 2 powi (e + 1)" and "- 1022 \<le> e"
  shows "\<bar>rnd x - x\<bar> \<le> 2 powi (e - 53)"
proof -
  have "expo x \<le> e" by (rule expo_le [OF assms])
  then have "ulp x \<le> 2 powi (e - 52)" unfolding ulp_def by (intro two_powi_mono) simp
  moreover have "(2::real) powi (e - 52) = 2 powi (e - 53) * 2"
  proof -
    have "e - 52 = (e - 53) + 1" by simp
    then have "(2::real) powi (e - 52) = 2 powi ((e - 53) + 1)" by (simp only:)
    also have "\<dots> = 2 powi (e - 53) * 2 powi 1" by (rule two_powi_add)
    finally show ?thesis by simp
  qed
  ultimately show ?thesis using rnd_err [of x] by linarith
qed

lemma fdiv_Fin: "b \<noteq> 0 \<Longrightarrow> fdiv (Fin a) (Fin b) = round64 (a / b)"
  by simp

lemma fmul_Fin: "fmul (Fin a) (Fin b) = round64 (a * b)"
  by simp

text \<open>
  A count \<open>k\<close> out of \<open>n\<close> as a percentage, the way the program computes it: both
  roundings stay within their range, and the result is within \<open>2^-46\<close> of \<open>100 k / n\<close>.
\<close>

lemma percent_value:
  assumes "k \<le> n" and "0 < n"
  shows "\<exists>a p. fdiv (Fin (real k)) (Fin (real n)) = Fin a \<and> a = rnd (real k / real n)
     \<and> 0 \<le> a \<and> a \<le> 1
     \<and> fmul (Fin a) (Fin 100) = Fin p \<and> p = rnd (a * 100) \<and> 0 \<le> p \<and> p \<le> 100"
proof -
  have q: "0 \<le> real k / real n" "real k / real n \<le> 1" using assms by simp_all
  from round64_between [OF round64_zero round64_one q]
  obtain a where a: "round64 (real k / real n) = Fin a" "0 \<le> a" "a \<le> 1" by blast
  have h: "round64 100 = Fin 100" by (rule round64_numeral) simp
  have "0 \<le> a * 100" "a * 100 \<le> 100" using a(2,3) by simp_all
  from round64_between [OF round64_zero h this]
  obtain p where p: "round64 (a * 100) = Fin p" "0 \<le> p" "p \<le> 100" by blast
  have "fdiv (Fin (real k)) (Fin (real n)) = Fin a" using assms(2) a(1) by simp
  moreover have "fmul (Fin a) (Fin 100) = Fin p" using p(1) by simp
  ultimately show ?thesis
    using a p round64_Fin_rnd [OF a(1)] round64_Fin_rnd [OF p(1)] by blast
qed

lemma percent_error:
  assumes "0 \<le> q" and "q \<le> 1"
  shows "\<bar>rnd (rnd q * 100) - 100 * q\<bar> \<le> 1 / 2 ^ 46"
proof -
  have a1: "\<bar>rnd q - q\<bar> \<le> 2 powi (- 54)"
  proof (cases "q = 1")
    case True
    have "rnd 1 = 1" by (rule rnd_exact [where m = 1 and j = 0]) simp_all
    then show ?thesis by (simp add: True)
  next
    case False
    with assms have "\<bar>q\<bar> < 2 powi (- 1 + 1)" by simp
    from rnd_err_bound [OF this] show ?thesis by simp
  qed
  have "0 \<le> rnd q" by (rule rnd_nonneg [OF assms(1)])
  moreover have "rnd q \<le> 1"
    using rnd_mono [OF assms(2)] rnd_exact [where x = 1 and m = 1 and j = 0] by simp
  ultimately have "\<bar>rnd q * 100\<bar> < 2 powi (6 + 1)" by simp
  from rnd_err_bound [OF this]
  have a2: "\<bar>rnd (rnd q * 100) - rnd q * 100\<bar> \<le> 2 powi (- 47)" by simp
  define d :: real where "d = 1 / 2 ^ 46"
  have c: "(2::real) powi (- 54) = d / 256" "(2::real) powi (- 47) = d / 2"
    by (simp_all add: d_def power_int_minus_divide)
  have "0 \<le> d" by (simp add: d_def)
  then have "\<bar>rnd (rnd q * 100) - 100 * q\<bar> \<le> d"
    using a1 a2 unfolding c by linarith
  then show ?thesis by (simp only: d_def)
qed

section \<open>Basic statistics\<close>

lemma pairwise_sum_short: "length a < 8 \<Longrightarrow> pairwise_sum a = foldl fadd (Fin 0) a"
  by (simp add: pairwise_sum.simps)

lemma np_min_Nil: "np_min [] = Inl ValueError"
  by (simp add: np_min_def)

lemma np_mean_Nil: "np_mean [] = NaN"
  by (simp add: np_mean_def pairwise_sum_short)

lemma np_median_Nil: "np_median [] = NaN"
  by (simp add: np_median_def)

lemma np_std_Nil: "np_std [] = NaN"
  by (simp add: np_std_def np_var_def np_mean_def pairwise_sum_short)

lemma filter_all_isnan: "list_all isnan xs \<Longrightarrow> filter (\<lambda>v. \<not> isnan v) xs = []"
  by (induction xs) auto

lemma missing_F2_index: "get_column_index missing_analyzer ''F2'' = Inr 1"
  by (simp add: get_column_index_def missing_analyzer_def)

lemma missing_F2_column: "np_column (data missing_analyzer) 1 = Inr [NaN, NaN]"
  by (simp add: np_column_def np_index_def ncols_def ebind_def missing_analyzer_def)

text \<open>
  Claim C1, as stated: on a column whose cells are all missing, \<^verbatim>\<open>get_basic_statistics\<close>
  returns count 0 and NaN for mean, median, std, min and max, without an exception.  It
  does not return: \<^verbatim>\<open>np.min\<close> of the empty array raises ValueError.
\<close>

theorem basic_statistics_all_missing_counterexample:
  "new_analyzer digits_float missing_records = Inr missing_analyzer
   \<and> np_column (data missing_analyzer) 1 = Inr [NaN, NaN]
   \<and> get_basic_statistics missing_analyzer ''F2'' = Inl ValueError"
  by (simp add: missing_loaded missing_F2_column)
     (simp add: get_basic_statistics_def missing_F2_index missing_F2_column ebind_def np_min_def)

text \<open>
  Claim C1, amended: on a column whose cells are all missing, the array of clean values is
  empty, its mean, median and standard deviation are NaN, and \<^verbatim>\<open>get_basic_statistics\<close>
  raises ValueError (from \<^verbatim>\<open>np.min\<close>) instead of returning a dictionary.
\<close>

theorem basic_statistics_all_missing:
  assumes "get_column_index s column_name = Inr col_idx"
    and "np_column (data s) col_idx = Inr column_data"
    and "list_all isnan column_data"
  shows "get_basic_statistics s column_name = Inl ValueError
     \<and> filter (\<lambda>v. \<not> isnan v) column_data = []
     \<and> np_mean (filter (\<lambda>v. \<not> isnan v) column_data) = NaN
     \<and> np_median (filter (\<lambda>v. \<not> isnan v) column_data) = NaN
     \<and> np_std (filter (\<lambda>v. \<not> isnan v) column_data) = NaN"
  using assms
  by (simp add: get_basic_statistics_def ebind_def filter_all_isnan np_min_Nil np_mean_Nil
      np_median_Nil np_std_Nil)

theorem basic_statistics_all_missing_witness:
  "get_column_index missing_analyzer ''F2'' = Inr 1
   \<and> np_column (data missing_analyzer) 1 = Inr [NaN, NaN]
   \<and> list_all isnan [NaN, NaN]
   \<and> get_basic_statistics missing_analyzer ''F2'' = Inl ValueError"
  using basic_statistics_all_missing [OF missing_F2_index missing_F2_column]
  by (simp add: missing_F2_index missing_F2_column)

section \<open>Percentile rank\<close>

lemma first_index_None: "first_index xs x = None \<longleftrightarrow> x \<notin> set xs"
  by (induction xs) auto

lemma first_index_Some: "first_index xs x = Some i \<Longrightarrow> i < length xs \<and> xs ! i = x"
  by (induction xs arbitrary: i) (auto split: if_splits)

lemma py_index_absent: "x \<notin> set xs \<Longrightarrow> py_index xs x = Inl ValueError"
  by (simp add: py_index_def first_index_None [THEN iffD2])

lemma py_index_Inr: "py_index xs x = Inr i \<Longrightarrow> i < length xs \<and> xs ! i = x"
  by (auto simp: py_index_def dest: first_index_Some split: option.splits)

text \<open>A cell that can be read lies in the column that can be read.\<close>

lemma np_item_column:
  assumes "np_item d r i = Inr v"
  shows "\<exists>col. np_column d i = Inr col \<and> r < length col \<and> col ! r = v"
  using assms
  by (auto simp: np_item_def np_column_def ebind_def nrows_def split: if_splits sum.splits)

lemma np_column_item:
  assumes "np_column d i = Inr col" and "np_item d r i = Inr v"
  shows "r < length col \<and> col ! r = v"
  using np_item_column [OF assms(2)] assms(1) by auto

lemma percentile_rank_unfold:
  assumes "get_column_index s column_name = Inr col_idx"
    and "py_index (country_names s) country_name = Inr country_idx"
    and "np_item (data s) country_idx col_idx = Inr country_value"
    and "np_column (data s) col_idx = Inr all_values"
  shows "calculate_percentile_rank s country_name column_name =
     Inr (fmul (fdiv (Fin (real (length (filter (\<lambda>v. fless v country_value)
                                         (filter (\<lambda>v. \<not> isnan v) all_values)))))
                     (Fin (real (length (filter (\<lambda>v. \<not> isnan v) all_values)))))
               (Fin 100))"
  using assms by (simp add: calculate_percentile_rank_def ebind_def)

lemma fless_NaN [simp]: "\<not> fless v NaN" "\<not> fless NaN v"
  by (simp_all add: fless_def)

lemma filter_notnan_empty: "filter (\<lambda>v. \<not> isnan v) xs = [] \<longleftrightarrow> list_all isnan xs"
  by (induction xs) auto

lemma scenario_F2_index: "get_column_index scenario ''F2'' = Inr 1"
  by (simp add: get_column_index_def scenario_def)

lemma scenario_F1_index: "get_column_index scenario ''F1'' = Inr 0"
  by (simp add: get_column_index_def scenario_def)

lemma scenario_names_index:
  "py_index (country_names scenario) ''A'' = Inr 0"
  "py_index (country_names scenario) ''B'' = Inr 1"
  "py_index (country_names scenario) ''C'' = Inr 2"
  by (simp_all add: py_index_def scenario_def)

lemma scenario_columns:
  "np_column (data scenario) 0 = Inr [Fin 1, Fin 2, Fin 3]"
  "np_column (data scenario) 1 = Inr [NaN, Fin 5, Fin 5]"
  by (simp_all add: np_column_def np_index_def ncols_def ebind_def scenario_def)

lemma scenario_items:
  "np_item (data scenario) 0 0 = Inr (Fin 1)"
  "np_item (data scenario) 1 0 = Inr (Fin 2)"
  "np_item (data scenario) 2 0 = Inr (Fin 3)"
  "np_item (data scenario) 0 1 = Inr NaN"
  "np_item (data scenario) 1 1 = Inr (Fin 5)"
  "np_item (data scenario) 2 1 = Inr (Fin 5)"
  by (simp_all add: np_item_def np_index_def ncols_def nrows_def ebind_def scenario_def)

text \<open>
  Claim C3, as stated: for an entity whose cell is missing, \<^verbatim>\<open>calculate_percentile_rank\<close>
  returns NaN.  In the scenario, entity A has no value for F2 and its rank is 0.0: no
  value compares less than NaN, and two values of the column are present.
\<close>

theorem percentile_rank_missing_counterexample:
  "new_analyzer digits_float scenario_records = Inr scenario
   \<and> py_index (country_names scenario) ''A'' = Inr 0
   \<and> np_item (data scenario) 0 1 = Inr NaN
   \<and> calculate_percentile_rank scenario ''A'' ''F2'' = Inr (Fin 0)"
  by (simp add: scenario_loaded scenario_names_index scenario_items
      percentile_rank_unfold [OF scenario_F2_index scenario_names_index(1) scenario_items(4)
        scenario_columns(2)])

text \<open>
  Claim C3, amended: for an entity present in the dataset whose cell for the feature is
  missing, \<^verbatim>\<open>calculate_percentile_rank\<close> returns 0.0 when the column holds at least one
  value, and NaN only when every cell of the column is missing.
\<close>

theorem percentile_rank_missing:
  assumes "get_column_index s column_name = Inr col_idx"
    and "py_index (country_names s) country_name = Inr country_idx"
    and "np_item (data s) country_idx col_idx = Inr NaN"
    and "np_column (data s) col_idx = Inr all_values"
  shows "calculate_percentile_rank s country_name column_name =
     Inr (if list_all isnan all_values then NaN else Fin 0)"
proof (cases "list_all isnan all_values")
  case True
  then have "filter (\<lambda>v. \<not> isnan v) all_values = []"
    by (simp add: filter_notnan_empty)
  with True show ?thesis
    by (simp add: percentile_rank_unfold [OF assms])
next
  case False
  then have "filter (\<lambda>v. \<not> isnan v) all_values \<noteq> []"
    by (simp add: filter_notnan_empty)
  with False show ?thesis
    by (simp add: percentile_rank_unfold [OF assms])
qed

theorem percentile_rank_missing_witness:
  "get_column_index scenario ''F2'' = Inr 1
   \<and> py_index (country_names scenario) ''A'' = Inr 0
   \<and> np_item (data scenario) 0 1 = Inr NaN
   \<and> np_column (data scenario) 1 = Inr [NaN, Fin 5, Fin 5]
   \<and> calculate_percentile_rank scenario ''A'' ''F2'' = Inr (Fin 0)"
  using percentile_rank_missing [OF scenario_F2_index scenario_names_index(1) scenario_items(4)
      scenario_columns(2)]
  by (simp add: scenario_F2_index scenario_names_index scenario_items scenario_columns)

lemma fless_not_isnan: "fless a b \<Longrightarrow> \<not> isnan a \<and> \<not> isnan b"
  by (simp add: fless_def)

lemma fless_trans: "fless a b \<Longrightarrow> fless b c \<Longrightarrow> fless a c"
  by (auto simp: fless_def)

lemma filter_fless_clean:
  "filter (\<lambda>x. fless x v) (filter (\<lambda>x. \<not> isnan x) xs) = filter (\<lambda>x. \<not> isnan x \<and> fless x v) xs"
  by (induction xs) (auto simp: fless_def)

lemma length_filter_mono:
  "(\<And>x. x \<in> set xs \<Longrightarrow> P x \<Longrightarrow> Q x) \<Longrightarrow> length (filter P xs) \<le> length (filter Q xs)"
  by (induction xs) auto

lemma clean_nonempty:
  assumes "r < length col" and "\<not> isnan (col ! r)"
  shows "0 < length (filter (\<lambda>x. \<not> isnan x) col)"
proof -
  from assms have "col ! r \<in> set (filter (\<lambda>x. \<not> isnan x) col)" by simp
  then show ?thesis by (metis length_pos_if_in_set)
qed

text \<open>The rank of an entity with a value: a count out of a positive count.\<close>

lemma percentile_rank_value:
  assumes "get_column_index s column_name = Inr col_idx"
    and "py_index (country_names s) country_name = Inr country_idx"
    and "np_item (data s) country_idx col_idx = Inr v"
    and "\<not> isnan v"
    and "np_column (data s) col_idx = Inr all_values"
  shows "0 < length (filter (\<lambda>x. \<not> isnan x) all_values)"
    and "calculate_percentile_rank s country_name column_name =
       Inr (fmul (fdiv (Fin (real (length (filter (\<lambda>x. \<not> isnan x \<and> fless x v) all_values))))
                       (Fin (real (length (filter (\<lambda>x. \<not> isnan x) all_values)))))
                 (Fin 100))"
proof -
  from np_column_item [OF assms(5) assms(3)] assms(4)
  have "country_idx < length all_values" and "\<not> isnan (all_values ! country_idx)"
    by auto
  then show pos: "0 < length (filter (\<lambda>x. \<not> isnan x) all_values)"
    by (rule clean_nonempty)
  show "calculate_percentile_rank s country_name column_name =
       Inr (fmul (fdiv (Fin (real (length (filter (\<lambda>x. \<not> isnan x \<and> fless x v) all_values))))
                       (Fin (real (length (filter (\<lambda>x. \<not> isnan x) all_values)))))
                 (Fin 100))"
    by (simp only: percentile_rank_unfold [OF assms(1,2,3,5)] filter_fless_clean)
qed

text \<open>Two thirds, and two thirds of a hundred, in binary64.\<close>

lemma two_thirds: "round64 (2 / 3) = Fin (6004799503160661 / 2 ^ 53)"
proof -
  have "round64 (2 / 3) = Fin (of_int 6004799503160661 * 2 powi (- 1 - 52))"
    by (rule round64_eval) (simp_all add: power_int_minus_divide)
  then show ?thesis by (simp add: power_int_minus_divide)
qed

lemma two_thirds_percent:
  "round64 (6004799503160661 / 2 ^ 53 * 100) = Fin (4691249611844266 / 2 ^ 46)"
proof -
  have "round64 (6004799503160661 / 2 ^ 53 * 100)
      = Fin (of_int 4691249611844266 * 2 powi (6 - 52))"
    by (rule round64_eval) (simp_all add: power_int_minus_divide)
  then show ?thesis by (simp add: power_int_minus_divide)
qed

lemma two_hundred_thirds: "round64 (200 / 3) = Fin (4691249611844267 / 2 ^ 46)"
proof -
  have "round64 (200 / 3) = Fin (of_int 4691249611844267 * 2 powi (6 - 52))"
    by (rule round64_eval) (simp_all add: power_int_minus_divide)
  then show ?thesis by (simp add: power_int_minus_divide)
qed

lemma scenario_C_rank:
  "calculate_percentile_rank scenario ''C'' ''F1'' = Inr (Fin (4691249611844266 / 2 ^ 46))"
proof -
  have "calculate_percentile_rank scenario ''C'' ''F1''
      = Inr (fmul (fdiv (Fin 2) (Fin 3)) (Fin 100))"
    by (simp add: percentile_rank_unfold [OF scenario_F1_index scenario_names_index(3)
          scenario_items(3) scenario_columns(1)] fless_def)
  also have "fdiv (Fin 2) (Fin 3) = Fin (6004799503160661 / 2 ^ 53)"
    by (simp add: two_thirds)
  also have "fmul (Fin (6004799503160661 / 2 ^ 53)) (Fin 100) = Fin (4691249611844266 / 2 ^ 46)"
    by (simp only: fmul_Fin two_thirds_percent)
  finally show ?thesis .
qed

text \<open>
  Claim C4, as stated: the rank is \<open>100 * k / n\<close> for \<open>k\<close> values below the entity's out of
  \<open>n\<close>.  In the scenario entity C has two of three values of F1 below its own.  The
  program divides first and multiplies then, rounding twice: its result
  66.66666666666666 is neither the number \<open>200 / 3\<close> nor the binary64 value
  66.66666666666667 of \<open>100 * 2 / 3\<close>.
\<close>

theorem percentile_rank_formula_counterexample:
  "new_analyzer digits_float scenario_records = Inr scenario
   \<and> np_column (data scenario) 0 = Inr [Fin 1, Fin 2, Fin 3]
   \<and> np_item (data scenario) 2 0 = Inr (Fin 3)
   \<and> calculate_percentile_rank scenario ''C'' ''F1'' = Inr (Fin (4691249611844266 / 2 ^ 46))
   \<and> Fin (4691249611844266 / 2 ^ 46) \<noteq> Fin (100 * 2 / 3)
   \<and> Fin (4691249611844266 / 2 ^ 46) \<noteq> fdiv (fmul (Fin 100) (Fin 2)) (Fin 3)"
proof -
  have "fmul (Fin 100) (Fin 2) = Fin 200"
    by (simp add: round64_numeral)
  then have "fdiv (fmul (Fin 100) (Fin 2)) (Fin 3) = Fin (4691249611844267 / 2 ^ 46)"
    by (simp add: two_hundred_thirds)
  then show ?thesis
    by (simp add: scenario_loaded scenario_columns scenario_items scenario_C_rank)
qed

text \<open>
  Claim C4, amended: for a known column, an absent entity name makes
  \<^verbatim>\<open>calculate_percentile_rank\<close> fail (the ValueError of \<^verbatim>\<open>list.index\<close>).  For an entity with
  a value \<open>v\<close>, let \<open>k\<close> be the number of non-missing values strictly less than \<open>v\<close> and \<open>n\<close>
  the number of non-missing values, which is positive.  The result is the binary64 product
  \<open>(k / n) * 100\<close>, the quotient rounded first: a number from 0 to 100 that differs from
  \<open>100 * k / n\<close> by at most \<open>2^-46\<close>.  An entity with no value below its own has rank 0.
\<close>

theorem percentile_rank_formula:
  assumes "get_column_index s column_name = Inr col_idx"
  shows "(country_name \<notin> set (country_names s) \<longrightarrow>
            calculate_percentile_rank s country_name column_name = Inl ValueError)
     \<and> (\<forall>country_idx v all_values k n.
            py_index (country_names s) country_name = Inr country_idx
            \<and> np_item (data s) country_idx col_idx = Inr v \<and> \<not> isnan v
            \<and> np_column (data s) col_idx = Inr all_values
            \<and> k = length (filter (\<lambda>x. \<not> isnan x \<and> fless x v) all_values)
            \<and> n = length (filter (\<lambda>x. \<not> isnan x) all_values) \<longrightarrow>
            0 < n
            \<and> (\<exists>p. calculate_percentile_rank s country_name column_name = Inr (Fin p)
                   \<and> Fin p = fmul (fdiv (Fin (real k)) (Fin (real n))) (Fin 100)
                   \<and> 0 \<le> p \<and> p \<le> 100
                   \<and> \<bar>p - 100 * real k / real n\<bar> \<le> 1 / 2 ^ 46)
            \<and> ((\<forall>x \<in> set all_values. \<not> fless x v) \<longrightarrow>
                calculate_percentile_rank s country_name column_name = Inr (Fin 0)))"
proof (intro conjI impI allI)
  assume "country_name \<notin> set (country_names s)"
  then show "calculate_percentile_rank s country_name column_name = Inl ValueError"
    using assms by (simp add: calculate_percentile_rank_def ebind_def py_index_absent)
next
  fix country_idx v all_values and k n :: nat
  assume h: "py_index (country_names s) country_name = Inr country_idx
            \<and> np_item (data s) country_idx col_idx = Inr v \<and> \<not> isnan v
            \<and> np_column (data s) col_idx = Inr all_values
            \<and> k = length (filter (\<lambda>x. \<not> isnan x \<and> fless x v) all_values)
            \<and> n = length (filter (\<lambda>x. \<not> isnan x) all_values)"
  then have i: "py_index (country_names s) country_name = Inr country_idx"
    and c: "np_item (data s) country_idx col_idx = Inr v" and nn: "\<not> isnan v"
    and a: "np_column (data s) col_idx = Inr all_values"
    and k: "k = length (filter (\<lambda>x. \<not> isnan x \<and> fless x v) all_values)"
    and n: "n = length (filter (\<lambda>x. \<not> isnan x) all_values)"
    by simp_all
  note r = percentile_rank_value [OF assms i c nn a, folded k n]
  show pos: "0 < n" by (rule r(1))
  have le: "k \<le> n" unfolding k n by (rule length_filter_mono) simp
  from percent_value [OF le pos] obtain q p
    where q: "fdiv (Fin (real k)) (Fin (real n)) = Fin q" "q = rnd (real k / real n)"
      and p: "fmul (Fin q) (Fin 100) = Fin p" "p = rnd (q * 100)" "0 \<le> p" "p \<le> 100"
    by blast
  have "0 \<le> real k / real n" "real k / real n \<le> 1" using le pos by simp_all
  from percent_error [OF this] have "\<bar>p - 100 * real k / real n\<bar> \<le> 1 / 2 ^ 46"
    by (simp add: p(2) q(2))
  moreover have "calculate_percentile_rank s country_name column_name = Inr (Fin p)"
    by (simp only: r(2) q(1) p(1))
  moreover have "Fin p = fmul (fdiv (Fin (real k)) (Fin (real n))) (Fin 100)"
    by (simp only: q(1) p(1))
  ultimately show "\<exists>p. calculate_percentile_rank s country_name column_name = Inr (Fin p)
                   \<and> Fin p = fmul (fdiv (Fin (real k)) (Fin (real n))) (Fin 100)
                   \<and> 0 \<le> p \<and> p \<le> 100
                   \<and> \<bar>p - 100 * real k / real n\<bar> \<le> 1 / 2 ^ 46"
    using p(3,4) by blast
  assume "\<forall>x \<in> set all_values. \<not> fless x v"
  then have "k = 0" unfolding k by (simp add: filter_empty_conv)
  then show "calculate_percentile_rank s country_name column_name = Inr (Fin 0)"
    using pos by (simp add: r(2))
qed

theorem percentile_rank_formula_witness:
  "get_column_index scenario ''F1'' = Inr 0
   \<and> ''Z'' \<notin> set (country_names scenario)
   \<and> calculate_percentile_rank scenario ''Z'' ''F1'' = Inl ValueError
   \<and> py_index (country_names scenario) ''C'' = Inr 2
   \<and> np_item (data scenario) 2 0 = Inr (Fin 3) \<and> \<not> isnan (Fin 3)
   \<and> np_column (data scenario) 0 = Inr [Fin 1, Fin 2, Fin 3]
   \<and> (\<exists>p. calculate_percentile_rank scenario ''C'' ''F1'' = Inr (Fin p)
          \<and> Fin p = fmul (fdiv (Fin 2) (Fin 3)) (Fin 100)
          \<and> \<bar>p - 100 * 2 / 3\<bar> \<le> 1 / 2 ^ 46)
   \<and> calculate_percentile_rank scenario ''A'' ''F1'' = Inr (Fin 0)"
proof -
  note t = percentile_rank_formula [OF scenario_F1_index]
  have z: "''Z'' \<notin> set (country_names scenario)" by (simp add: scenario_def)
  have "calculate_percentile_rank scenario ''Z'' ''F1'' = Inl ValueError"
    using t [of "''Z''", THEN conjunct1] z by (rule mp)
  moreover have "\<exists>p. calculate_percentile_rank scenario ''C'' ''F1'' = Inr (Fin p)
          \<and> Fin p = fmul (fdiv (Fin 2) (Fin 3)) (Fin 100)
          \<and> \<bar>p - 100 * 2 / 3\<bar> \<le> 1 / 2 ^ 46"
    using t [of "''C''", THEN conjunct2, THEN spec, THEN spec, THEN spec, THEN spec, THEN spec,
        of 2 "Fin 3" "[Fin 1, Fin 2, Fin 3]" 2 3]
      scenario_names_index(3) scenario_items(3) scenario_columns(1)
    by (simp add: fless_def, blast)
  moreover have "calculate_percentile_rank scenario ''A'' ''F1'' = Inr (Fin 0)"
    using t [of "''A''", THEN conjunct2, THEN spec, THEN spec, THEN spec, THEN spec, THEN spec,
        of 0 "Fin 1" "[Fin 1, Fin 2, Fin 3]" 0 3]
      scenario_names_index(1) scenario_items(1) scenario_columns(1)
    by (simp add: fless_def)
  ultimately show ?thesis
    using z by (simp add: scenario_F1_index scenario_names_index scenario_items scenario_columns)
qed

text \<open>
  Claim C8: for two entities present in the dataset with values \<open>v1 < v2\<close> of one feature,
  both percentile ranks are returned and the rank of the first is at most the rank of the
  second.
\<close>

theorem percentile_rank_monotone:
  assumes "get_column_index s column_name = Inr col_idx"
    and "py_index (country_names s) e1 = Inr i1"
    and "py_index (country_names s) e2 = Inr i2"
    and "np_item (data s) i1 col_idx = Inr v1"
    and "np_item (data s) i2 col_idx = Inr v2"
    and "fless v1 v2"
  shows "\<exists>p1 p2. calculate_percentile_rank s e1 column_name = Inr p1
     \<and> calculate_percentile_rank s e2 column_name = Inr p2 \<and> fle p1 p2"
proof -
  from np_item_column [OF assms(4)] obtain all_values
    where a: "np_column (data s) col_idx = Inr all_values" by blast
  from assms(6) have n1: "\<not> isnan v1" and n2: "\<not> isnan v2"
    by (simp_all add: fless_not_isnan)
  define n where "n = length (filter (\<lambda>x. \<not> isnan x) all_values)"
  define k1 where "k1 = length (filter (\<lambda>x. \<not> isnan x \<and> fless x v1) all_values)"
  define k2 where "k2 = length (filter (\<lambda>x. \<not> isnan x \<and> fless x v2) all_values)"
  note r1 = percentile_rank_value [OF assms(1) assms(2) assms(4) n1 a, folded n_def k1_def]
  note r2 = percentile_rank_value [OF assms(1) assms(3) assms(5) n2 a, folded n_def k2_def]
  have le: "k1 \<le> k2"
    unfolding k1_def k2_def
    by (rule length_filter_mono) (auto intro: fless_trans [OF _ assms(6)])
  have le2: "k2 \<le> n" unfolding k2_def n_def by (rule length_filter_mono) simp
  from le le2 have le1: "k1 \<le> n" by simp
  from percent_value [OF le1 r1(1)] obtain q1 p1
    where 1: "fdiv (Fin (real k1)) (Fin (real n)) = Fin q1" "q1 = rnd (real k1 / real n)"
      "fmul (Fin q1) (Fin 100) = Fin p1" "p1 = rnd (q1 * 100)"
    by blast
  from percent_value [OF le2 r1(1)] obtain q2 p2
    where 2: "fdiv (Fin (real k2)) (Fin (real n)) = Fin q2" "q2 = rnd (real k2 / real n)"
      "fmul (Fin q2) (Fin 100) = Fin p2" "p2 = rnd (q2 * 100)"
    by blast
  have "real k1 / real n \<le> real k2 / real n"
    using le r1(1) by (simp add: divide_right_mono)
  then have "q1 \<le> q2" unfolding 1(2) 2(2) by (rule rnd_mono)
  then have "q1 * 100 \<le> q2 * 100" by simp
  then have "p1 \<le> p2" unfolding 1(4) 2(4) by (rule rnd_mono)
  then have "fle (Fin p1) (Fin p2)" by (simp add: fle_def)
  moreover have "calculate_percentile_rank s e1 column_name = Inr (Fin p1)"
    by (simp only: r1(2) 1(1) 1(3))
  moreover have "calculate_percentile_rank s e2 column_name = Inr (Fin p2)"
    by (simp only: r2(2) 2(1) 2(3))
  ultimately show ?thesis by blast
qed

theorem percentile_rank_monotone_witness:
  "fless (Fin 1) (Fin 3)
   \<and> (\<exists>p1 p2. calculate_percentile_rank scenario ''A'' ''F1'' = Inr p1
        \<and> calculate_percentile_rank scenario ''C'' ''F1'' = Inr p2 \<and> fle p1 p2)"
proof -
  have l: "fless (Fin 1) (Fin 3)" by (simp add: fless_def)
  show ?thesis
    using percentile_rank_monotone [OF scenario_F1_index scenario_names_index(1)
        scenario_names_index(3) scenario_items(1) scenario_items(3) l] l
    by simp
qed

section \<open>Column lookup\<close>

lemma map_headers_notin: "name \<notin> set hs \<Longrightarrow> map_headers i hs m name = m name"
  by (induction hs arbitrary: i m) auto

text \<open>A header name maps to the position of its last occurrence.\<close>

lemma map_headers_last:
  "k < length hs \<Longrightarrow> hs ! k \<notin> set (drop (Suc k) hs) \<Longrightarrow>
     map_headers i hs m (hs ! k) = Some (i + k)"
proof (induction hs arbitrary: i m k)
  case Nil
  then show ?case by simp
next
  case (Cons h hs)
  show ?case
  proof (cases k)
    case 0
    with Cons.prems show ?thesis by (simp add: map_headers_notin)
  next
    case (Suc k')
    have "map_headers (Suc i) hs (m(h \<mapsto> i)) (hs ! k') = Some (Suc i + k')"
      by (rule Cons.IH) (use Cons.prems Suc in auto)
    with Suc show ?thesis by simp
  qed
qed

lemma new_analyzer_column_map:
  assumes "new_analyzer pf records = Inr s"
  shows "column_map s = map_headers 0 (headers s) Map.empty"
  using new_analyzer_Inr [OF assms] by auto

lemma np_index_zero: "np_index 0 i = Inl IndexError"
  by (simp add: np_index_def)

lemma np_index_negative:
  "0 < k \<Longrightarrow> k \<le> n \<Longrightarrow> np_index n (- int k) = np_index n (int (n - k))"
  by (auto simp: np_index_def)

lemma np_index_too_negative: "n < k \<Longrightarrow> np_index n (- int k) = Inl IndexError"
  by (auto simp: np_index_def)

lemma np_column_cong:
  "np_index (ncols d) i = np_index (ncols d) j \<Longrightarrow> np_column d i = np_column d j"
  by (simp add: np_column_def)

lemma np_item_cong:
  "np_index (ncols d) i = np_index (ncols d) j \<Longrightarrow> np_item d r i = np_item d r j"
  by (simp add: np_item_def)

text \<open>
  Each query that takes a column name uses it through the offset only, and uses the offset
  through the matrix column it denotes only.
\<close>

lemma basic_statistics_cong:
  assumes "get_column_index s a = Inr i" and "get_column_index s b = Inr j"
    and "np_index (ncols (data s)) i = np_index (ncols (data s)) j"
  shows "get_basic_statistics s a = get_basic_statistics s b"
  by (simp add: get_basic_statistics_def assms(1,2) ebind_def np_column_cong [OF assms(3)])

lemma top_countries_cong:
  assumes "get_column_index s a = Inr i" and "get_column_index s b = Inr j"
    and "np_index (ncols (data s)) i = np_index (ncols (data s)) j"
  shows "get_top_countries srt s a n = get_top_countries srt s b n"
  by (simp add: get_top_countries_def assms(1,2) ebind_def np_column_cong [OF assms(3)])

lemma bottom_countries_cong:
  assumes "get_column_index s a = Inr i" and "get_column_index s b = Inr j"
    and "np_index (ncols (data s)) i = np_index (ncols (data s)) j"
  shows "get_bottom_countries srt s a n = get_bottom_countries srt s b n"
  by (simp add: get_bottom_countries_def assms(1,2) ebind_def np_column_cong [OF assms(3)])

lemma find_outliers_cong:
  assumes "get_column_index s a = Inr i" and "get_column_index s b = Inr j"
    and "np_index (ncols (data s)) i = np_index (ncols (data s)) j"
  shows "find_outliers s a t = find_outliers s b t"
  by (simp add: find_outliers_def assms(1,2) ebind_def np_column_cong [OF assms(3)])

lemma percentile_rank_cong:
  assumes "get_column_index s a = Inr i" and "get_column_index s b = Inr j"
    and "np_index (ncols (data s)) i = np_index (ncols (data s)) j"
  shows "calculate_percentile_rank s c a = calculate_percentile_rank s c b"
  by (simp add: calculate_percentile_rank_def assms(1,2) ebind_def np_column_cong [OF assms(3)]
      np_item_cong [OF assms(3)] split: sum.splits)

lemma correlation_matrix_cong:
  assumes "get_column_index s a = Inr i" and "get_column_index s b = Inr j"
    and "np_index (ncols (data s)) i = np_index (ncols (data s)) j"
  shows "get_correlation_matrix dot s [a] = get_correlation_matrix dot s [b]"
  by (simp add: get_correlation_matrix_def assms ebind_def)
lemma emap_py_nth:
  "\<forall>i \<in> set ixs. i < length xs \<Longrightarrow> emap (py_nth xs) ixs = Inr (map ((!) xs) ixs)"
  by (induction ixs) (simp_all add: py_nth_def ebind_def)

lemma filter_by_region_wf:
  assumes "wf_analyzer s"
  shows "filter_by_region s region =
     Inr (map ((!) (country_names s))
            (filter (\<lambda>i. regional_indicators s ! i = region) [0..<length (data s)]),
          map ((!) (data s))
            (filter (\<lambda>i. regional_indicators s ! i = region) [0..<length (data s)]))"
proof -
  let ?ixs = "filter (\<lambda>i. regional_indicators s ! i = region) [0..<length (data s)]"
  from assms have l: "length (regional_indicators s) = length (data s)"
    and l2: "length (country_names s) = length (data s)"
    by (simp_all add: wf_analyzer_def)
  have a: "\<forall>i \<in> set ?ixs. i < length (country_names s)"
    by (simp add: l2)
  have b: "\<forall>i \<in> set ?ixs. i < length (data s)"
    by simp
  have "filter_by_region s region =
      ebind (emap (py_nth (country_names s)) ?ixs) (\<lambda>countries.
      ebind (emap (py_nth (data s)) ?ixs) (\<lambda>d. Inr (countries, d)))"
    unfolding filter_by_region_def Let_def l ..
  also have "\<dots> = Inr (map ((!) (country_names s)) ?ixs, map ((!) (data s)) ?ixs)"
    unfolding emap_py_nth [OF a] emap_py_nth [OF b] by (simp add: ebind_def)
  finally show ?thesis .
qed

lemma region_data_ncols:
  assumes "wf_analyzer s" and "filter_by_region s region = Inr (c, d)"
  shows "d = [] \<or> ncols d = ncols (data s)"
proof (cases d)
  case Nil
  then show ?thesis by simp
next
  case (Cons r rest)
  from assms have "set d \<subseteq> set (data s)"
    by (auto simp: filter_by_region_wf)
  with Cons have "r \<in> set (data s)" by auto
  with assms(1) have "length r = ncols (data s)"
    by (simp add: wf_analyzer_def list_all_iff)
  with Cons show ?thesis by (simp add: ncols_def)
qed

lemma region_column_cong:
  assumes "wf_analyzer s" and "filter_by_region s region = Inr (c, d)"
    and "np_index (ncols (data s)) i = np_index (ncols (data s)) j"
  shows "np_column d i = np_column d j"
  using region_data_ncols [OF assms(1,2)] assms(3)
  by (auto simp: np_column_def ncols_def np_index_zero)

lemma compare_loop_cong:
  assumes "wf_analyzer s" and "np_index (ncols (data s)) i = np_index (ncols (data s)) j"
  shows "compare_loop s i regions results = compare_loop s j regions results"
proof (induction regions arbitrary: results)
  case Nil
  show ?case by simp
next
  case (Cons region rest)
  obtain c d where f: "filter_by_region s region = Inr (c, d)"
    by (simp add: filter_by_region_wf [OF assms(1)])
  show ?case
    by (simp add: f ebind_def region_column_cong [OF assms(1) f assms(2)] Cons.IH Let_def
        split: sum.splits)
qed

lemma compare_regions_cong:
  assumes "wf_analyzer s"
    and "get_column_index s a = Inr i" and "get_column_index s b = Inr j"
    and "np_index (ncols (data s)) i = np_index (ncols (data s)) j"
  shows "compare_regions s a = compare_regions s b"
  by (simp add: compare_regions_def assms(2,3) ebind_def compare_loop_cong [OF assms(1,4)])

lemma single_N_index: "get_column_index single_analyzer ''N'' = Inr (- 2)"
  by (simp add: get_column_index_def single_analyzer_def)

lemma single_ncols: "ncols (data single_analyzer) = 1"
  by (simp add: ncols_def single_analyzer_def)

lemma single_N_column: "np_column (data single_analyzer) (- 2) = Inl IndexError"
  by (simp add: np_column_def np_index_def single_ncols ebind_def)

text \<open>
  Claim C9, as stated: the name of an identity column resolves to -2 or -1, and every query
  given such a name silently reads a matrix column counted from the end.  On a file with a
  single feature the first header name resolves to -2, no column -2 exists, and the query
  raises IndexError.
\<close>

theorem identity_column_counterexample:
  "new_analyzer digits_float single_records = Inr single_analyzer
   \<and> get_column_index single_analyzer ''N'' = Inr (- 2)
   \<and> ncols (data single_analyzer) = 1
   \<and> get_basic_statistics single_analyzer ''N'' = Inl IndexError"
  by (simp add: single_loaded single_N_index single_ncols)
     (simp add: get_basic_statistics_def single_N_index single_N_column ebind_def)

text \<open>
  Claim C9, amended: in a loaded analyzer, for the first or second header name (position
  \<open>k < 2\<close>), provided the name does not occur again later in the header,
  \<^verbatim>\<open>get_column_index\<close> returns \<open>k - 2\<close>.  When the matrix has at least \<open>2 - k\<close> columns,
  every query that takes a column name then returns what it returns for a feature name
  whose offset is \<open>columns + k - 2\<close>, the column counted from the end; when it has fewer,
  the column read raises IndexError.  No KeyError is raised in either case.
\<close>

theorem identity_column_reads:
  assumes "new_analyzer pf records = Inr s"
    and "k < 2" and "k < length (headers s)"
    and "headers s ! k \<notin> set (drop (Suc k) (headers s))"
  shows "get_column_index s (headers s ! k) = Inr (int k - 2)
     \<and> (ncols (data s) < 2 - k \<longrightarrow> np_column (data s) (int k - 2) = Inl IndexError)
     \<and> (2 - k \<le> ncols (data s) \<longrightarrow>
          np_column (data s) (int k - 2)
            = Inr (map (\<lambda>r. r ! (ncols (data s) - (2 - k))) (data s))
          \<and> (\<forall>f. get_column_index s f = Inr (int (ncols (data s) - (2 - k))) \<longrightarrow>
                get_basic_statistics s (headers s ! k) = get_basic_statistics s f
              \<and> (\<forall>srt n. get_top_countries srt s (headers s ! k) n = get_top_countries srt s f n)
              \<and> (\<forall>srt n. get_bottom_countries srt s (headers s ! k) n
                            = get_bottom_countries srt s f n)
              \<and> get_correlation_matrix dot s [headers s ! k] = get_correlation_matrix dot s [f]
              \<and> compare_regions s (headers s ! k) = compare_regions s f
              \<and> (\<forall>t. find_outliers s (headers s ! k) t = find_outliers s f t)
              \<and> (\<forall>c. calculate_percentile_rank s c (headers s ! k)
                        = calculate_percentile_rank s c f)))"
proof -
  let ?n = "ncols (data s)"
  have wf: "wf_analyzer s" by (rule new_analyzer_wf [OF assms(1)])
  have "column_map s (headers s ! k) = Some k"
    using map_headers_last [OF assms(3,4), of 0 Map.empty]
    by (simp add: new_analyzer_column_map [OF assms(1)])
  then have idx: "get_column_index s (headers s ! k) = Inr (int k - 2)"
    by (simp add: get_column_index_def)
  have neg: "int k - 2 = - int (2 - k)" using assms(2) by simp
  have pos: "0 < 2 - k" using assms(2) by simp
  have few: "np_column (data s) (int k - 2) = Inl IndexError" if "?n < 2 - k"
    using np_index_too_negative [OF that] by (simp add: np_column_def neg ebind_def)
  have eq: "np_index ?n (int k - 2) = np_index ?n (int (?n - (2 - k)))" if "2 - k \<le> ?n"
    using np_index_negative [OF pos that] by (simp add: neg)
  have col: "np_column (data s) (int k - 2) = Inr (map (\<lambda>r. r ! (?n - (2 - k))) (data s))"
    if "2 - k \<le> ?n"
  proof -
    from that pos have "np_index ?n (int (?n - (2 - k))) = Inr (?n - (2 - k))"
      by (auto simp: np_index_def)
    then show ?thesis by (simp add: np_column_def eq [OF that] ebind_def)
  qed
  have ops: "get_basic_statistics s (headers s ! k) = get_basic_statistics s f
      \<and> (\<forall>srt n. get_top_countries srt s (headers s ! k) n = get_top_countries srt s f n)
      \<and> (\<forall>srt n. get_bottom_countries srt s (headers s ! k) n
                    = get_bottom_countries srt s f n)
      \<and> get_correlation_matrix dot s [headers s ! k] = get_correlation_matrix dot s [f]
      \<and> compare_regions s (headers s ! k) = compare_regions s f
      \<and> (\<forall>t. find_outliers s (headers s ! k) t = find_outliers s f t)
      \<and> (\<forall>c. calculate_percentile_rank s c (headers s ! k)
                = calculate_percentile_rank s c f)"
    if le: "2 - k \<le> ?n" and f: "get_column_index s f = Inr (int (?n - (2 - k)))" for f
  proof -
    note e = eq [OF le]
    show ?thesis
      by (intro conjI allI)
         (rule basic_statistics_cong [OF idx f e] top_countries_cong [OF idx f e]
            bottom_countries_cong [OF idx f e] correlation_matrix_cong [OF idx f e]
            compare_regions_cong [OF wf idx f e] find_outliers_cong [OF idx f e]
            percentile_rank_cong [OF idx f e])+
  qed
  have A: "?n < 2 - k \<longrightarrow> np_column (data s) (int k - 2) = Inl IndexError"
    by (rule impI) (rule few)
  have B: "2 - k \<le> ?n \<longrightarrow>
          np_column (data s) (int k - 2) = Inr (map (\<lambda>r. r ! (?n - (2 - k))) (data s))
          \<and> (\<forall>f. get_column_index s f = Inr (int (?n - (2 - k))) \<longrightarrow>
                get_basic_statistics s (headers s ! k) = get_basic_statistics s f
              \<and> (\<forall>srt n. get_top_countries srt s (headers s ! k) n = get_top_countries srt s f n)
              \<and> (\<forall>srt n. get_bottom_countries srt s (headers s ! k) n
                            = get_bottom_countries srt s f n)
              \<and> get_correlation_matrix dot s [headers s ! k] = get_correlation_matrix dot s [f]
              \<and> compare_regions s (headers s ! k) = compare_regions s f
              \<and> (\<forall>t. find_outliers s (headers s ! k) t = find_outliers s f t)
              \<and> (\<forall>c. calculate_percentile_rank s c (headers s ! k)
                        = calculate_percentile_rank s c f))"
  proof (rule impI, rule conjI)
    assume le: "2 - k \<le> ?n"
    show "np_column (data s) (int k - 2) = Inr (map (\<lambda>r. r ! (?n - (2 - k))) (data s))"
      by (rule col [OF le])
    show "\<forall>f. get_column_index s f = Inr (int (?n - (2 - k))) \<longrightarrow>
                get_basic_statistics s (headers s ! k) = get_basic_statistics s f
              \<and> (\<forall>srt n. get_top_countries srt s (headers s ! k) n = get_top_countries srt s f n)
              \<and> (\<forall>srt n. get_bottom_countries srt s (headers s ! k) n
                            = get_bottom_countries srt s f n)
              \<and> get_correlation_matrix dot s [headers s ! k] = get_correlation_matrix dot s [f]
              \<and> compare_regions s (headers s ! k) = compare_regions s f
              \<and> (\<forall>t. find_outliers s (headers s ! k) t = find_outliers s f t)
              \<and> (\<forall>c. calculate_percentile_rank s c (headers s ! k)
                        = calculate_percentile_rank s c f)"
      by (rule allI, rule impI, rule ops [OF le], assumption)
  qed
  show ?thesis
    by (rule conjI [OF idx conjI [OF A B]])
qed

lemma scenario_headers: "headers scenario = [''N'', ''R'', ''F1'', ''F2'']"
  by (simp add: scenario_def)

lemma scenario_ncols: "ncols (data scenario) = 2"
  by (simp add: scenario_def ncols_def)

theorem identity_column_reads_witness:
  "new_analyzer digits_float scenario_records = Inr scenario
   \<and> (0::nat) < 2 \<and> 0 < length (headers scenario)
   \<and> headers scenario ! 0 \<notin> set (drop (Suc 0) (headers scenario))
   \<and> get_column_index scenario ''N'' = Inr (- 2)
   \<and> get_column_index scenario ''F1'' = Inr 0
   \<and> get_basic_statistics scenario ''N'' = get_basic_statistics scenario ''F1''"
proof -
  have h: "(0::nat) < 2" "0 < length (headers scenario)"
    "headers scenario ! 0 \<notin> set (drop (Suc 0) (headers scenario))"
    by (simp_all add: scenario_headers)
  note t = identity_column_reads [OF scenario_loaded h]
  have c: "2 - 0 \<le> ncols (data scenario)"
    by (simp add: scenario_ncols)
  have f: "get_column_index scenario ''F1'' = Inr (int (ncols (data scenario) - (2 - 0)))"
    by (simp add: scenario_F1_index scenario_ncols)
  from t have "get_column_index scenario (headers scenario ! 0) = Inr (int 0 - 2)"
    by (rule conjunct1)
  then have i: "get_column_index scenario ''N'' = Inr (- 2)"
    by (simp add: scenario_headers)
  from t have "2 - 0 \<le> ncols (data scenario) \<longrightarrow>
      np_column (data scenario) (int 0 - 2)
        = Inr (map (\<lambda>r. r ! (ncols (data scenario) - (2 - 0))) (data scenario))
      \<and> (\<forall>f. get_column_index scenario f = Inr (int (ncols (data scenario) - (2 - 0))) \<longrightarrow>
            get_basic_statistics scenario (headers scenario ! 0) = get_basic_statistics scenario f
          \<and> (\<forall>srt n. get_top_countries srt scenario (headers scenario ! 0) n
                        = get_top_countries srt scenario f n)
          \<and> (\<forall>srt n. get_bottom_countries srt scenario (headers scenario ! 0) n
                        = get_bottom_countries srt scenario f n)
          \<and> get_correlation_matrix seq_dot scenario [headers scenario ! 0]
              = get_correlation_matrix seq_dot scenario [f]
          \<and> compare_regions scenario (headers scenario ! 0) = compare_regions scenario f
          \<and> (\<forall>t. find_outliers scenario (headers scenario ! 0) t = find_outliers scenario f t)
          \<and> (\<forall>c. calculate_percentile_rank scenario c (headers scenario ! 0)
                    = calculate_percentile_rank scenario c f))"
    by (rule conjunct2 [THEN conjunct2])
  from this [THEN mp, OF c, THEN conjunct2, THEN spec, THEN mp, OF f, THEN conjunct1]
  have "get_basic_statistics scenario (headers scenario ! 0)
      = get_basic_statistics scenario ''F1''" .
  then have e: "get_basic_statistics scenario ''N'' = get_basic_statistics scenario ''F1''"
    by (simp only: scenario_headers nth_Cons_0)
  show ?thesis
    by (intro conjI) (rule scenario_loaded h i scenario_F1_index e)+
qed

section \<open>Ranking\<close>

lemma tie_loaded: "new_analyzer digits_float tie_records = Inr tie_analyzer"
  by (simp add: load_defs tie_records_def tie_analyzer_def)

lemma mask_filter: "map fst (filter snd (zip xs (map P xs))) = filter P xs"
  by (induction xs) auto

lemma zip_mask_filter:
  "length cs = length vs \<Longrightarrow>
     zip (map fst (filter snd (zip cs (map P vs)))) (filter P vs)
       = filter (\<lambda>(c, v). P v) (zip cs vs)"
  by (induction cs vs rule: list_induct2) auto

lemma length_mask:
  "length cs = length vs \<Longrightarrow>
     length (map fst (filter snd (zip cs (map P vs)))) = length (filter P vs)"
  by (induction cs vs rule: list_induct2) auto

lemma np_column_length: "np_column d i = Inr col \<Longrightarrow> length col = length d"
  by (auto simp: np_column_def ebind_def split: sum.splits)

lemma pick_in_range:
  assumes "length cs = length vs" and "\<forall>i \<in> set ixs. i < length vs"
  shows "pick cs vs ixs = Inr (map (\<lambda>i. zip cs vs ! i) ixs)"
  using assms(2)
proof (induction ixs)
  case Nil
  show ?case by (simp add: pick_def)
next
  case (Cons i ixs)
  then have "pick cs vs ixs = Inr (map (\<lambda>i. zip cs vs ! i) ixs)" and "i < length vs"
    by simp_all
  then show ?case
    using assms(1) by (simp add: pick_def py_nth_def ebind_def)
qed

lemma argsort_ok_mset:
  assumes "argsort_ok vs idx"
  shows "mset idx = mset [0..<length vs]"
proof -
  have "mset idx = mset (sort idx)" by simp
  also have "\<dots> = mset [0..<length vs]"
    using assms by (simp only: argsort_ok_def)
  finally show ?thesis .
qed

lemma argsort_ok_set:
  assumes "argsort_ok vs idx"
  shows "set idx = {0..<length vs}"
proof -
  have "set idx = set_mset (mset idx)" by simp
  also have "\<dots> = set_mset (mset [0..<length vs])"
    by (simp only: argsort_ok_mset [OF assms])
  finally show ?thesis by simp
qed

lemma mset_map_nth_perm:
  assumes "mset idx = mset [0..<length xs]"
  shows "mset (map ((!) xs) idx) = mset xs"
proof -
  have "mset (map ((!) xs) idx) = image_mset ((!) xs) (mset idx)" by simp
  also have "\<dots> = image_mset ((!) xs) (mset [0..<length xs])"
    by (simp only: assms)
  also have "\<dots> = mset (map ((!) xs) [0..<length xs])" by simp
  also have "\<dots> = mset xs" by (simp only: map_nth)
  finally show ?thesis .
qed
lemma ranking_unfold:
  assumes "get_column_index s column_name = Inr col_idx"
    and "np_column (data s) col_idx = Inr values"
    and "length (country_names s) = length values"
  shows "get_bottom_countries srt s column_name n =
       pick (map fst (filter snd (zip (country_names s) (map (\<lambda>v. \<not> isnan v) values))))
         (filter (\<lambda>v. \<not> isnan v) values)
         (py_take n (srt (filter (\<lambda>v. \<not> isnan v) values)))"
    and "get_top_countries srt s column_name n =
       pick (map fst (filter snd (zip (country_names s) (map (\<lambda>v. \<not> isnan v) values))))
         (filter (\<lambda>v. \<not> isnan v) values)
         (py_take n (rev (srt (filter (\<lambda>v. \<not> isnan v) values))))"
  using assms
  by (simp_all add: get_bottom_countries_def get_top_countries_def ebind_def np_mask_def
      mask_filter)

lemma wf_column_length:
  assumes "wf_analyzer s" and "np_column (data s) col_idx = Inr values"
  shows "length (country_names s) = length values"
  using assms by (simp add: wf_analyzer_def np_column_length)

text \<open>
  Claim C2, as stated: ties keep their row order in both queries.  With an argsort that
  keeps equal values in index order, the top query lists two equal values in the reverse
  of their row order, because it reverses the ascending order.  With the only other
  ascending order of the two indices it is the bottom query that reverses them
  (\<open>ranking_ties_any_argsort\<close>).
\<close>

theorem ranking_ties_counterexample:
  "new_analyzer digits_float tie_records = Inr tie_analyzer
   \<and> country_names tie_analyzer = [''A'', ''B'']
   \<and> insertion_argsort [Fin 5, Fin 5] = [0, 1]
   \<and> get_top_countries insertion_argsort tie_analyzer ''F1'' 10
       = Inr [(''B'', Fin 5), (''A'', Fin 5)]"
proof -
  have i: "get_column_index tie_analyzer ''F1'' = Inr 0"
    by (simp add: get_column_index_def tie_analyzer_def)
  have c: "np_column (data tie_analyzer) 0 = Inr [Fin 5, Fin 5]"
    by (simp add: np_column_def np_index_def ncols_def ebind_def tie_analyzer_def)
  have n: "country_names tie_analyzer = [''A'', ''B'']"
    by (simp add: tie_analyzer_def)
  have a: "insertion_argsort [Fin 5, Fin 5] = [0, 1]"
    by (simp add: insertion_argsort_def upt_rec)
  have l: "length (country_names tie_analyzer) = length [Fin 5, Fin 5]"
    by (simp add: n)
  have "get_top_countries insertion_argsort tie_analyzer ''F1'' 10
       = Inr [(''B'', Fin 5), (''A'', Fin 5)]"
    by (simp add: ranking_unfold(2) [OF i c l] n a py_take_def pick_def py_nth_def ebind_def)
  with n a show ?thesis by (simp add: tie_loaded)
qed

text \<open>
  Claim C2, amended: for a loaded dataset, a column that can be read and \<open>n \<ge> 0\<close>, both
  queries exclude the missing cells.  There is one ascending arrangement \<open>ps\<close> of the
  remaining (entity, value) pairs such that the bottom query returns the first \<open>n\<close> pairs
  of \<open>ps\<close> and the top query the first \<open>n\<close> pairs of the reverse of \<open>ps\<close>, which is
  descending; each returns all pairs, without error, if there are fewer than \<open>n\<close>.  Equal
  values appear in the order \<^verbatim>\<open>np.argsort\<close> gives them in the bottom query and in the
  opposite order in the top query; neither is promised to be the row order.
\<close>

theorem ranking_queries:
  assumes "wf_analyzer s"
    and "get_column_index s column_name = Inr col_idx"
    and "np_column (data s) col_idx = Inr values"
    and "argsort_ok (filter (\<lambda>v. \<not> isnan v) values) (srt (filter (\<lambda>v. \<not> isnan v) values))"
    and "0 \<le> n"
  shows "\<exists>ps. get_bottom_countries srt s column_name n = Inr (take (nat n) ps)
     \<and> get_top_countries srt s column_name n = Inr (take (nat n) (rev ps))
     \<and> mset ps = mset (filter (\<lambda>(c, v). \<not> isnan v) (zip (country_names s) values))
     \<and> sorted_wrt (\<lambda>a b. fle (snd a) (snd b)) ps
     \<and> sorted_wrt (\<lambda>a b. fle (snd b) (snd a)) (rev ps)"
proof -
  let ?vv = "filter (\<lambda>v. \<not> isnan v) values"
  let ?vc = "map fst (filter snd (zip (country_names s) (map (\<lambda>v. \<not> isnan v) values)))"
  let ?idx = "srt ?vv"
  let ?pairs = "zip ?vc ?vv"
  let ?ps = "map ((!) ?pairs) ?idx"
  have len: "length (country_names s) = length values"
    by (rule wf_column_length [OF assms(1,3)])
  have lvc: "length ?vc = length ?vv" by (rule length_mask [OF len])
  have pairs: "?pairs = filter (\<lambda>(c, v). \<not> isnan v) (zip (country_names s) values)"
    by (rule zip_mask_filter [OF len])
  have lp: "length ?pairs = length ?vv" by (simp only: length_zip lvc min.idem)
  have iset: "set ?idx = {0..<length ?vv}" by (rule argsort_ok_set [OF assms(4)])
  have rng: "\<forall>i \<in> set ?idx. i < length ?vv" by (simp add: iset)
  have rng1: "\<forall>i \<in> set (take (nat n) ?idx). i < length ?vv"
    using rng by (meson in_set_takeD)
  have rng2: "\<forall>i \<in> set (take (nat n) (rev ?idx)). i < length ?vv"
    using rng by (metis in_set_takeD set_rev)
  have bottom: "get_bottom_countries srt s column_name n = Inr (take (nat n) ?ps)"
    using assms(5)
    by (simp add: ranking_unfold(1) [OF assms(2,3) len] py_take_def
        pick_in_range [OF lvc rng1] take_map)
  have top: "get_top_countries srt s column_name n = Inr (take (nat n) (rev ?ps))"
    using assms(5)
    by (simp add: ranking_unfold(2) [OF assms(2,3) len] py_take_def
        pick_in_range [OF lvc rng2] take_map rev_map)
  have "mset ?idx = mset [0..<length ?pairs]"
    by (simp only: lp argsort_ok_mset [OF assms(4)])
  then have "mset ?ps = mset ?pairs" by (rule mset_map_nth_perm)
  then have perm: "mset ?ps = mset (filter (\<lambda>(c, v). \<not> isnan v) (zip (country_names s) values))"
    by (simp only: pairs)
  have notnan: "\<not> isnan (?vv ! i)" if "i < length ?vv" for i
  proof -
    from nth_mem [OF that] have "?vv ! i \<in> set ?vv" .
    then show ?thesis by (simp only: set_filter mem_Collect_eq) simp
  qed
  have srt_idx: "sorted_wrt (\<lambda>i j. fkey (?vv ! i) \<le> fkey (?vv ! j)) ?idx"
    using assms(4) by (simp only: argsort_ok_def)
  have "sorted_wrt (\<lambda>i j. fle (snd (?pairs ! i)) (snd (?pairs ! j))) ?idx"
  proof (rule sorted_wrt_mono_rel [OF _ srt_idx])
    fix i j
    assume "i \<in> set ?idx" "j \<in> set ?idx" and k: "fkey (?vv ! i) \<le> fkey (?vv ! j)"
    then have i: "i < length ?vv" and j: "j < length ?vv" using rng by simp_all
    from i j lvc have "snd (?pairs ! i) = ?vv ! i" "snd (?pairs ! j) = ?vv ! j"
      by simp_all
    with k notnan [OF i] notnan [OF j]
    show "fle (snd (?pairs ! i)) (snd (?pairs ! j))" by (simp add: fle_def)
  qed
  then have asc: "sorted_wrt (\<lambda>a b. fle (snd a) (snd b)) ?ps"
    by (simp add: sorted_wrt_map)
  then have desc: "sorted_wrt (\<lambda>a b. fle (snd b) (snd a)) (rev ?ps)"
    by (simp add: sorted_wrt_rev)
  from bottom top perm asc desc show ?thesis by blast
qed
text \<open>The stable argsort meets the promise of \<^verbatim>\<open>np.argsort\<close> on every array.\<close>

lemma insertion_argsort_ok: "argsort_ok vs (insertion_argsort vs)"
proof -
  let ?idx = "sort_key (\<lambda>i. fkey (vs ! i)) [0..<length vs]"
  have "mset (sort ?idx) = mset [0..<length vs]" by simp
  moreover have "sorted (sort ?idx)" by simp
  moreover have "sorted [0..<length vs]" by simp
  ultimately have "sort ?idx = [0..<length vs]"
    by (metis sorted_sort_id mset_sort properties_for_sort)
  moreover have "sorted (map (\<lambda>i. fkey (vs ! i)) ?idx)"
    by (rule sorted_sort_key)
  then have "sorted_wrt (\<lambda>i j. fkey (vs ! i) \<le> fkey (vs ! j)) ?idx"
    by (simp add: sorted_map)
  ultimately show ?thesis by (simp add: argsort_ok_def insertion_argsort_def)
qed

lemma scenario_wf: "wf_analyzer scenario"
  by (rule new_analyzer_wf [OF scenario_loaded])

theorem ranking_queries_witness:
  "wf_analyzer scenario
   \<and> get_column_index scenario ''F2'' = Inr 1
   \<and> np_column (data scenario) 1 = Inr [NaN, Fin 5, Fin 5]
   \<and> argsort_ok (filter (\<lambda>v. \<not> isnan v) [NaN, Fin 5, Fin 5])
        (insertion_argsort (filter (\<lambda>v. \<not> isnan v) [NaN, Fin 5, Fin 5]))
   \<and> (0::int) \<le> 10
   \<and> (\<exists>ps. get_bottom_countries insertion_argsort scenario ''F2'' 10 = Inr (take (nat 10) ps)
        \<and> get_top_countries insertion_argsort scenario ''F2'' 10 = Inr (take (nat 10) (rev ps))
        \<and> mset ps = mset (filter (\<lambda>(c, v). \<not> isnan v)
                             (zip (country_names scenario) [NaN, Fin 5, Fin 5]))
        \<and> sorted_wrt (\<lambda>a b. fle (snd a) (snd b)) ps
        \<and> sorted_wrt (\<lambda>a b. fle (snd b) (snd a)) (rev ps))"
proof -
  have a: "argsort_ok (filter (\<lambda>v. \<not> isnan v) [NaN, Fin 5, Fin 5])
        (insertion_argsort (filter (\<lambda>v. \<not> isnan v) [NaN, Fin 5, Fin 5]))"
    by (simp add: argsort_ok_def insertion_argsort_def upt_rec)
  have n: "(0::int) \<le> 10" by simp
  show ?thesis
    using ranking_queries [where srt = insertion_argsort, OF scenario_wf scenario_F2_index
        scenario_columns(2) a n]
      scenario_wf scenario_F2_index scenario_columns(2) a n
    by (intro conjI)
qed
text \<open>
  No sorting routine keeps the row order of the two tied entities in both queries: the
  top query returns the reverse of what the bottom query returns.
\<close>

lemma ranking_ties_any_argsort:
  assumes "argsort_ok [Fin 5, Fin 5] (srt [Fin 5, Fin 5])"
  shows "get_top_countries srt tie_analyzer ''F1'' 10 = Inr [(''B'', Fin 5), (''A'', Fin 5)]
     \<or> get_bottom_countries srt tie_analyzer ''F1'' 10 = Inr [(''B'', Fin 5), (''A'', Fin 5)]"
proof -
  let ?idx = "srt [Fin 5, Fin 5]"
  have i: "get_column_index tie_analyzer ''F1'' = Inr 0"
    by (simp add: get_column_index_def tie_analyzer_def)
  have c: "np_column (data tie_analyzer) 0 = Inr [Fin 5, Fin 5]"
    by (simp add: np_column_def np_index_def ncols_def ebind_def tie_analyzer_def)
  have n: "country_names tie_analyzer = [''A'', ''B'']"
    by (simp add: tie_analyzer_def)
  have l: "length (country_names tie_analyzer) = length [Fin 5, Fin 5]"
    by (simp add: n)
  from assms have s: "sort ?idx = [0, 1]"
    by (simp add: argsort_ok_def upt_rec)
  then have "length (sort ?idx) = 2" by simp
  then have "length ?idx = 2" by simp
  then obtain a b where ab: "?idx = [a, b]"
    by (auto simp: length_Suc_conv numeral_2_eq_2)
  with s have "?idx = [0, 1] \<or> ?idx = [1, 0]"
    by (auto split: if_splits)
  then show ?thesis
  proof
    assume "?idx = [0, 1]"
    then have "get_top_countries srt tie_analyzer ''F1'' 10
        = Inr [(''B'', Fin 5), (''A'', Fin 5)]"
      by (simp add: ranking_unfold(2) [OF i c l] n py_take_def pick_def py_nth_def ebind_def)
    then show ?thesis ..
  next
    assume "?idx = [1, 0]"
    then have "get_bottom_countries srt tie_analyzer ''F1'' 10
        = Inr [(''B'', Fin 5), (''A'', Fin 5)]"
      by (simp add: ranking_unfold(1) [OF i c l] n py_take_def pick_def py_nth_def ebind_def)
    then show ?thesis ..
  qed
qed

section \<open>Correlation of a single feature\<close>

text \<open>\<^verbatim>\<open>c / c\<close>: 1.0 if \<open>c\<close> is a nonzero number; NaN if it is zero, infinite or NaN.\<close>

lemma fdiv_self: "fdiv c c = (if nonzero_number c then Fin 1 else NaN)"
  by (cases c) (simp_all add: nonzero_number_def)

lemma fmul_PInf_not_number: "\<not> nonzero_number (fmul d PInf)"
  by (cases d) (simp_all add: nonzero_number_def inf_of_sign_def)

text \<open>The covariance of one variable, and what \<^verbatim>\<open>np.corrcoef\<close> makes of it.\<close>

lemma np_cov_single:
  "np_cov dot [xs] =
     Scalar (fmul (dot (map (\<lambda>v. fsub v (np_mean xs)) xs) (map (\<lambda>v. fsub v (np_mean xs)) xs))
                  (fdiv (Fin 1) (Fin (if int (length xs) - 1 \<le> 0 then 0
                                      else real (length xs) - 1))))"
  by (simp add: np_cov_def row_mean_def Let_def)

lemma np_cov_single_few:
  assumes "length xs < 2" shows "\<exists>d. np_cov dot [xs] = Scalar (fmul d PInf)"
proof -
  from assms have "int (length xs) - 1 \<le> 0" by simp
  then show ?thesis by (simp add: np_cov_single inf_of_sign_def, blast)
qed

lemma np_corrcoef_single:
  assumes "np_cov dot [xs] = Scalar c"
  shows "np_corrcoef dot [xs] = Scalar (if nonzero_number c then Fin 1 else NaN)"
  by (simp add: np_corrcoef_def assms fdiv_self)

lemma complete_rows_single:
  "map (\<lambda>r. r ! 0) (filter (\<lambda>r. \<not> list_ex isnan r) (map (\<lambda>r. [r ! j]) d))
     = filter (\<lambda>v. \<not> isnan v) (map (\<lambda>r. r ! j) d)"
  by (induction d) simp_all

lemma correlation_single_unfold:
  assumes "get_column_index s f = Inr i" and "np_column (data s) i = Inr col"
  shows "get_correlation_matrix dot s [f] =
     Inr (np_corrcoef dot [filter (\<lambda>v. \<not> isnan v) col])"
proof -
  from assms(2) obtain j where j: "np_index (ncols (data s)) i = Inr j"
    and col: "col = map (\<lambda>r. r ! j) (data s)"
    by (auto simp: np_column_def ebind_def split: sum.splits)
  show ?thesis
    by (simp add: get_correlation_matrix_def assms(1) j ebind_def col complete_rows_single
        del: map_map)
qed

lemma wide_F1_index: "get_column_index wide_analyzer ''F1'' = Inr 0"
  by (simp add: get_column_index_def wide_analyzer_def)

lemma wide_F1_column: "np_column (data wide_analyzer) 0 = Inr [Fin 1]"
  by (simp add: np_column_def np_index_def ncols_def ebind_def wide_analyzer_def)

lemma round64_half: "round64 (1 / 2) = Fin (1 / 2)"
proof (rule round64_exact [where m = 1 and j = "- 1"])
  show "(1 / 2 :: real) = of_int 1 * 2 powi (- 1)" by (simp add: power_int_minus_divide)
  have "\<bar>1 / 2 :: real\<bar> < 2 ^ 0" by simp
  also have "(2::real) ^ 0 < 2 ^ 1024" by (rule power_strict_increasing) simp_all
  finally show "\<bar>1 / 2 :: real\<bar> < 2 ^ 1024" .
qed simp_all

lemma np_cov_one_value: "np_cov seq_dot [[Fin 1]] = Scalar NaN"
  by (simp add: np_cov_single np_mean_def pairwise_sum_short fsub_def seq_dot_def
      inf_of_sign_def)

lemma np_cov_three_values: "np_cov seq_dot [[Fin 1, Fin 2, Fin 3]] = Scalar (Fin 1)"
  by (simp add: np_cov_single np_mean_def pairwise_sum_short fsub_def seq_dot_def
      round64_numeral round64_half)

lemma np_cov_constant: "np_cov seq_dot [[Fin 5, Fin 5]] = Scalar (Fin 0)"
  by (simp add: np_cov_single np_mean_def pairwise_sum_short fsub_def seq_dot_def
      round64_numeral)

text \<open>
  Claim C5, as stated: for a single feature with at least one non-missing value the
  result is the matrix \<open>[[1.0]]\<close>.  With exactly one such row the covariance is divided by
  zero degrees of freedom and the result is NaN; with the three values 1, 2, 3 the result
  is the number 1.0 without axes, since \<^verbatim>\<open>np.corrcoef\<close> returns \<^verbatim>\<open>c / c\<close> for a scalar
  covariance.
\<close>

theorem correlation_single_counterexample:
  "new_analyzer digits_float wide_records = Inr wide_analyzer
   \<and> np_column (data wide_analyzer) 0 = Inr [Fin 1]
   \<and> get_correlation_matrix seq_dot wide_analyzer [''F1''] = Inr (Scalar NaN)
   \<and> get_correlation_matrix seq_dot scenario [''F1''] = Inr (Scalar (Fin 1))"
  by (simp add: wide_analyzer_loaded wide_F1_column
      correlation_single_unfold [OF wide_F1_index wide_F1_column]
      correlation_single_unfold [OF scenario_F1_index scenario_columns(1)]
      np_corrcoef_single [OF np_cov_one_value] np_corrcoef_single [OF np_cov_three_values]
      nonzero_number_def)

text \<open>
  Claim C5, amended: for a single feature whose column can be read,
  \<^verbatim>\<open>get_correlation_matrix\<close> returns a scalar, not a matrix, whatever the BLAS inner product
  computes: with \<open>c\<close> the covariance \<^verbatim>\<open>np.cov\<close> computes for the non-missing values of the
  column, the result is 1.0 if \<open>c\<close> is a number other than zero and NaN if \<open>c\<close> is zero,
  infinite or NaN.  It is NaN whenever fewer than two rows have a value.
\<close>

theorem correlation_single_feature:
  assumes "get_column_index s f = Inr i"
    and "np_column (data s) i = Inr col"
  shows "\<exists>c. np_cov dot [filter (\<lambda>v. \<not> isnan v) col] = Scalar c
     \<and> get_correlation_matrix dot s [f]
         = Inr (Scalar (if nonzero_number c then Fin 1 else NaN))
     \<and> (length (filter (\<lambda>v. \<not> isnan v) col) < 2 \<longrightarrow>
           get_correlation_matrix dot s [f] = Inr (Scalar NaN))"
proof -
  let ?xs = "filter (\<lambda>v. \<not> isnan v) col"
  obtain c where c: "np_cov dot [?xs] = Scalar c"
    by (simp add: np_cov_single)
  have r: "get_correlation_matrix dot s [f]
      = Inr (Scalar (if nonzero_number c then Fin 1 else NaN))"
    by (simp only: correlation_single_unfold [OF assms] np_corrcoef_single [OF c])
  have "get_correlation_matrix dot s [f] = Inr (Scalar NaN)" if "length ?xs < 2"
  proof -
    from np_cov_single_few [OF that, of dot] c obtain d where "c = fmul d PInf" by auto
    then have "\<not> nonzero_number c" by (simp only: fmul_PInf_not_number not_False_eq_True)
    then show ?thesis by (simp add: r)
  qed
  with c r show ?thesis by blast
qed

theorem correlation_single_feature_witness:
  "get_column_index scenario ''F1'' = Inr 0
   \<and> np_column (data scenario) 0 = Inr [Fin 1, Fin 2, Fin 3]
   \<and> get_correlation_matrix seq_dot scenario [''F1''] = Inr (Scalar (Fin 1))
   \<and> get_column_index scenario ''F2'' = Inr 1
   \<and> np_column (data scenario) 1 = Inr [NaN, Fin 5, Fin 5]
   \<and> get_correlation_matrix seq_dot scenario [''F2''] = Inr (Scalar NaN)
   \<and> get_column_index wide_analyzer ''F1'' = Inr 0
   \<and> np_column (data wide_analyzer) 0 = Inr [Fin 1]
   \<and> length (filter (\<lambda>v. \<not> isnan v) [Fin 1]) < 2
   \<and> get_correlation_matrix seq_dot wide_analyzer [''F1''] = Inr (Scalar NaN)"
proof -
  have "get_correlation_matrix seq_dot scenario [''F1''] = Inr (Scalar (Fin 1))"
    using correlation_single_feature [OF scenario_F1_index scenario_columns(1), of seq_dot]
    by (auto simp: np_cov_three_values nonzero_number_def)
  moreover have "get_correlation_matrix seq_dot scenario [''F2''] = Inr (Scalar NaN)"
    using correlation_single_feature [OF scenario_F2_index scenario_columns(2), of seq_dot]
    by (auto simp: np_cov_constant nonzero_number_def)
  moreover have "get_correlation_matrix seq_dot wide_analyzer [''F1''] = Inr (Scalar NaN)"
    using correlation_single_feature [OF wide_F1_index wide_F1_column, of seq_dot]
    by auto
  ultimately show ?thesis
    by (simp add: scenario_F1_index scenario_F2_index scenario_columns wide_F1_index
        wide_F1_column)
qed

section \<open>Standard deviations\<close>















text \<open>On a column without missing cells the two forms agree.\<close>

lemma nan_population_std_clean:
  assumes "list_all (\<lambda>v. \<not> isnan v) vs" shows "nan_population_std vs = population_std vs"
proof -
  from assms have f: "filter (\<lambda>v. \<not> isnan v) vs = vs" by (simp add: list_all_iff)
  from assms have m: "map (\<lambda>v. if isnan v then Fin 0 else v) vs = vs"
    by (simp add: list_all_iff map_idI)
  have mean: "nan_mean_of vs = mean_of vs"
    by (simp add: nan_mean_of_def mean_of_def present_def f m)
  have "map (\<lambda>v. if isnan v then Fin 0
                  else fmul (fsub v (nan_mean_of vs)) (fsub v (nan_mean_of vs))) vs
      = map (\<lambda>v. fmul (fsub v (mean_of vs)) (fsub v (mean_of vs))) vs"
    using assms by (simp add: list_all_iff mean)
  then have "nan_sum_sq_dev vs = sum_sq_dev vs"
    by (simp only: nan_sum_sq_dev_def sum_sq_dev_def)
  then show ?thesis
    by (simp add: nan_population_std_def population_std_def present_def f)
qed









end
